theory Spec2Isabelle
  imports Main "HOL-Library.Sublist" "HOL-Library.AList"
begin

section \<open>The Biome migration script (scripts/migrate-to-biome.js)\<close>

text \<open>
  The script is a straight-line pipeline over the project directory: detect the legacy
  ESLint/Prettier configuration, back it up, install Biome through the package manager,
  write \<^verbatim>\<open>biome.json\<close>, rewrite \<^verbatim>\<open>package.json\<close>, uninstall the legacy packages and
  delete the legacy files. Every \<^verbatim>\<open>fs\<close> and \<^verbatim>\<open>child_process\<close> call of the script is a
  function on an explicit project state; an exception is a value \<open>Inl err\<close> returned
  together with the state reached when it was thrown. Console output is not modelled.
  \<^verbatim>\<open>findRootDir\<close> is not modelled either: the state is the directory it returns.
\<close>

subsection \<open>JSON values as JavaScript sees them\<close>

text \<open>
  The value \<^verbatim>\<open>JSON.parse\<close> returns. An object is its list of own properties in insertion
  order (the keys of a parsed object are distinct). Of a number the script only observes
  whether it is zero, so integers stand for numbers.
\<close>

datatype json =
    JNull
  | JBool bool
  | JNum int
  | JStr string
  | JArr "json list"
  | JObj "(string \<times> json) list"

text \<open>The truth value of \<^verbatim>\<open>if (v)\<close>, \<^verbatim>\<open>v && ...\<close> and \<^verbatim>\<open>v || ...\<close>.\<close>

fun truthy :: "json \<Rightarrow> bool" where
  "truthy JNull = False"
| "truthy (JBool b) = b"
| "truthy (JNum n) = (n \<noteq> 0)"
| "truthy (JStr s) = (s \<noteq> [])"
| "truthy (JArr xs) = True"
| "truthy (JObj kvs) = True"

text \<open>\<open>None\<close> is \<^verbatim>\<open>undefined\<close>.\<close>

fun truthy_opt :: "json option \<Rightarrow> bool" where
  "truthy_opt None = False"
| "truthy_opt (Some v) = truthy v"

datatype js_error = TypeError | SyntaxError | IOError | ExecError

text \<open>
  \<^verbatim>\<open>v[k]\<close> for a value other than \<^verbatim>\<open>null\<close>, under the property names the script uses
  (\<^verbatim>\<open>eslintConfig\<close>, \<^verbatim>\<open>prettier\<close>, \<^verbatim>\<open>scripts\<close>, \<^verbatim>\<open>dependencies\<close>, \<^verbatim>\<open>devDependencies\<close>, the legacy
  package names and the five script names): none of them is an inherited property of an
  object, an array or a primitive wrapper, so only the own properties of an object answer.
\<close>

fun own :: "json \<Rightarrow> string \<Rightarrow> json option" where
  "own (JObj kvs) k = map_of kvs k"
| "own v k = None"

text \<open>\<^verbatim>\<open>v[k]\<close> in general: reading a property of \<^verbatim>\<open>null\<close> throws a TypeError.\<close>

definition get_prop :: "json \<Rightarrow> string \<Rightarrow> js_error + json option" where
  "get_prop v k = (if v = JNull then Inl TypeError else Inr (own v k))"

text \<open>
  \<^verbatim>\<open>v[k] = x\<close> for a value that is neither \<^verbatim>\<open>null\<close> nor \<^verbatim>\<open>undefined\<close>, as
  \<^verbatim>\<open>JSON.stringify\<close> shows it afterwards. On an object the property is replaced in place or
  appended. The script runs in sloppy mode (a CommonJS file with no \<^verbatim>\<open>'use strict'\<close>), where
  the assignment on a string, a number or a boolean is silently dropped; on an array the
  property is set, but \<^verbatim>\<open>JSON.stringify\<close> writes only the elements of an array.
\<close>

fun set_prop :: "json \<Rightarrow> string \<Rightarrow> json \<Rightarrow> json" where
  "set_prop (JObj kvs) k x = JObj (AList.update k x kvs)"
| "set_prop v k x = v"

text \<open>\<^verbatim>\<open>delete v[k]\<close>.\<close>

fun delete_prop :: "json \<Rightarrow> string \<Rightarrow> json" where
  "delete_prop (JObj kvs) k = JObj (AList.delete k kvs)"
| "delete_prop v k = v"

text \<open>Whether an assigned property can be read back: objects and arrays, not primitives.\<close>

fun is_object :: "json \<Rightarrow> bool" where
  "is_object (JObj kvs) = True"
| "is_object (JArr xs) = True"
| "is_object v = False"

text \<open>\<^verbatim>\<open>s.includes(sub)\<close> on strings.\<close>

fun str_includes :: "string \<Rightarrow> string \<Rightarrow> bool" where
  "str_includes [] sub = (sub = [])"
| "str_includes (c # cs) sub = (prefix sub (c # cs) \<or> str_includes cs sub)"

text \<open>\<^verbatim>\<open>xs.join(sep)\<close>.\<close>

fun join :: "string \<Rightarrow> string list \<Rightarrow> string" where
  "join sep [] = []"
| "join sep [x] = x"
| "join sep (x # y # ys) = x @ sep @ join sep (y # ys)"

subsection \<open>The project directory and the environment\<close>

text \<open>
  A file holds either a JSON text, given by the value it parses to, or a text that
  \<^verbatim>\<open>JSON.parse\<close> rejects. \<^verbatim>\<open>JSON.stringify(v, null, 2) + '\n'\<close> is the file \<open>Json v\<close>.
\<close>

datatype content = NotJson string | Json json

text \<open>
  The calls with an effect outside the process, in the order the script made them: a
  \<^verbatim>\<open>mkdirSync\<close>, \<^verbatim>\<open>copyFileSync\<close>, \<^verbatim>\<open>writeFileSync\<close> or \<^verbatim>\<open>unlinkSync\<close> that returned, and
  every \<^verbatim>\<open>execSync\<close> that was started.
\<close>

datatype call = Mkdir | CopyFile string | WriteFile string | Unlink string | Exec string

text \<open>
  \<open>files\<close> are the entries of the project root by name, \<open>backup\<close> the contents of the
  directory \<^verbatim>\<open>.biome-migration-backup\<close> under it (\<open>None\<close> when it does not exist; when the
  name is taken it is a directory), \<open>calls\<close> the record of the calls made so far.
\<close>

record project =
  files :: "string \<rightharpoonup> content"
  backup :: "(string \<rightharpoonup> content) option"
  calls :: "call list"

text \<open>
  What the script does not decide: which file-system calls fail, and what the package
  manager does. \<open>exec e command s\<close> is the exit (\<open>True\<close> for status zero; \<open>False\<close> for a
  non-zero status or a command that could not be spawned) and the project the command
  leaves behind.
\<close>

record env =
  read_fails :: "string \<Rightarrow> bool"
  mkdir_fails :: bool
  copy_fails :: "string \<Rightarrow> bool"
  write_fails :: "string \<Rightarrow> bool"
  unlink_fails :: "string \<Rightarrow> bool"
  exec :: "string \<Rightarrow> project \<Rightarrow> bool \<times> project"

text \<open>\<^verbatim>\<open>fs.existsSync(path.join(rootDir, file))\<close>.\<close>

definition existsSync :: "project \<Rightarrow> string \<Rightarrow> bool" where
  "existsSync s file = (files s file \<noteq> None)"

text \<open>\<^verbatim>\<open>JSON.parse(fs.readFileSync(path.join(rootDir, file), 'utf8'))\<close>.\<close>

definition readJson :: "env \<Rightarrow> string \<Rightarrow> project \<Rightarrow> js_error + json" where
  "readJson e file s =
     (case files s file of
        None \<Rightarrow> Inl IOError
      | Some c \<Rightarrow>
          if read_fails e file then Inl IOError
          else (case c of NotJson t \<Rightarrow> Inl SyntaxError | Json v \<Rightarrow> Inr v))"

text \<open>\<^verbatim>\<open>fs.writeFileSync(path.join(rootDir, file), text)\<close>.\<close>

definition writeFileSync ::
  "env \<Rightarrow> string \<Rightarrow> content \<Rightarrow> project \<Rightarrow> (js_error + unit) \<times> project" where
  "writeFileSync e file c s =
     (if write_fails e file then (Inl IOError, s)
      else (Inr (), s\<lparr>files := (files s)(file \<mapsto> c), calls := calls s @ [WriteFile file]\<rparr>))"

text \<open>\<^verbatim>\<open>fs.mkdirSync(backupDir, { recursive: true })\<close>.\<close>

definition mkdirSync :: "env \<Rightarrow> project \<Rightarrow> (js_error + unit) \<times> project" where
  "mkdirSync e s =
     (if mkdir_fails e then (Inl IOError, s)
      else (Inr (),
            s\<lparr>backup := Some (case backup s of None \<Rightarrow> Map.empty | Some b \<Rightarrow> b),
              calls := calls s @ [Mkdir]\<rparr>))"

text \<open>\<^verbatim>\<open>fs.copyFileSync(path.join(rootDir, file), path.join(backupDir, file))\<close>.\<close>

definition copyFileSync :: "env \<Rightarrow> string \<Rightarrow> project \<Rightarrow> (js_error + unit) \<times> project" where
  "copyFileSync e file s =
     (case (files s file, backup s) of
        (Some c, Some b) \<Rightarrow>
          if copy_fails e file then (Inl IOError, s)
          else (Inr (), s\<lparr>backup := Some (b(file \<mapsto> c)), calls := calls s @ [CopyFile file]\<rparr>)
      | _ \<Rightarrow> (Inl IOError, s))"

text \<open>\<^verbatim>\<open>fs.unlinkSync(path.join(rootDir, file))\<close>.\<close>

definition unlinkSync :: "env \<Rightarrow> string \<Rightarrow> project \<Rightarrow> (js_error + unit) \<times> project" where
  "unlinkSync e file s =
     (if files s file = None \<or> unlink_fails e file then (Inl IOError, s)
      else (Inr (), s\<lparr>files := (files s)(file := None), calls := calls s @ [Unlink file]\<rparr>))"

text \<open>
  \<^verbatim>\<open>execSync(command, { cwd: rootDir, stdio: 'inherit' })\<close>: throws when the command exits
  non-zero or cannot be spawned. The command cannot touch the record of calls.
\<close>

definition execSync :: "env \<Rightarrow> string \<Rightarrow> project \<Rightarrow> (js_error + unit) \<times> project" where
  "execSync e command s =
     (case exec e command s of
        (ok, s') \<Rightarrow>
          (if ok then Inr () else Inl ExecError, s'\<lparr>calls := calls s @ [Exec command]\<rparr>))"

subsection \<open>Constants of the script\<close>

record configs =
  eslint :: "string list"
  prettier :: "string list"

definition CONFIG_FILES :: configs where
  "CONFIG_FILES =
     \<lparr>eslint =
        [''.eslintrc'', ''.eslintrc.js'', ''.eslintrc.cjs'', ''.eslintrc.json'',
         ''.eslintrc.yml'', ''.eslintrc.yaml''],
      prettier =
        [''.prettierrc'', ''.prettierrc.js'', ''.prettierrc.cjs'', ''.prettierrc.json'',
         ''.prettierrc.yml'', ''.prettierrc.yaml'', ''prettier.config.js'',
         ''prettier.config.cjs'']\<rparr>"

definition PACKAGES_TO_REMOVE :: "string list" where
  "PACKAGES_TO_REMOVE =
     [''eslint'', ''@typescript-eslint/parser'', ''@typescript-eslint/eslint-plugin'',
      ''eslint-config-prettier'', ''eslint-plugin-prettier'', ''prettier'']"

datatype package_manager = Npm | Yarn | Pnpm | Bun

subsection \<open>findExistingConfigs\<close>

definition findExistingConfigs :: "env \<Rightarrow> project \<Rightarrow> js_error + configs" where
  "findExistingConfigs e s =
     (let found_eslint = filter (existsSync s) (eslint CONFIG_FILES);
          found_prettier = filter (existsSync s) (prettier CONFIG_FILES)
      in if existsSync s ''package.json'' then
           (case readJson e ''package.json'' s of
              Inl err \<Rightarrow> Inl err
            | Inr pkg \<Rightarrow>
                (case get_prop pkg ''eslintConfig'' of
                   Inl err \<Rightarrow> Inl err
                 | Inr ec \<Rightarrow>
                     (case get_prop pkg ''prettier'' of
                        Inl err \<Rightarrow> Inl err
                      | Inr pr \<Rightarrow>
                          Inr \<lparr>eslint = found_eslint @
                                  (if truthy_opt ec then [''package.json (eslintConfig field)'']
                                   else []),
                               prettier = found_prettier @
                                  (if truthy_opt pr then [''package.json (prettier field)'']
                                   else [])\<rparr>)))
         else Inr \<lparr>eslint = found_eslint, prettier = found_prettier\<rparr>)"

subsection \<open>backupConfigs\<close>

record backup_record =
  backupDir :: string
  backedUp :: "string list"

text \<open>The \<^verbatim>\<open>forEach\<close> of \<^verbatim>\<open>backupConfigs\<close>, with \<open>acc\<close> the array \<^verbatim>\<open>backedUp\<close> so far.\<close>

fun backupEach ::
  "env \<Rightarrow> string list \<Rightarrow> string list \<Rightarrow> project \<Rightarrow> (js_error + string list) \<times> project" where
  "backupEach e [] acc s = (Inr acc, s)"
| "backupEach e (file # rest) acc s =
     (if str_includes file ''package.json'' then backupEach e rest acc s
      else if existsSync s file then
        (case copyFileSync e file s of
           (Inl err, s') \<Rightarrow> (Inl err, s')
         | (Inr u, s') \<Rightarrow> backupEach e rest (acc @ [file]) s')
      else backupEach e rest acc s)"

definition backupConfigs ::
  "env \<Rightarrow> configs \<Rightarrow> project \<Rightarrow> (js_error + backup_record) \<times> project" where
  "backupConfigs e cfgs s =
     (case (if backup s = None then mkdirSync e s else (Inr (), s)) of
        (Inl err, s1) \<Rightarrow> (Inl err, s1)
      | (Inr u, s1) \<Rightarrow>
          (case backupEach e (eslint cfgs @ prettier cfgs) [] s1 of
             (Inl err, s2) \<Rightarrow> (Inl err, s2)
           | (Inr acc, s2) \<Rightarrow>
               (Inr \<lparr>backupDir = ''.biome-migration-backup'', backedUp = acc\<rparr>, s2)))"

subsection \<open>generateBiomeConfig\<close>

definition generateBiomeConfig :: json where
  "generateBiomeConfig =
     JObj
      [(''$schema'', JStr ''https://biomejs.dev/schemas/1.9.4/schema.json''),
       (''vcs'', JObj
          [(''enabled'', JBool True),
           (''clientKind'', JStr ''git''),
           (''useIgnoreFile'', JBool True)]),
       (''files'', JObj
          [(''ignoreUnknown'', JBool False),
           (''ignore'', JArr
              [JStr ''node_modules'', JStr ''dist'', JStr ''build'', JStr ''.next'',
               JStr ''.nuxt'', JStr ''coverage'', JStr ''*.min.js''])]),
       (''formatter'', JObj
          [(''enabled'', JBool True),
           (''formatWithErrors'', JBool False),
           (''indentStyle'', JStr ''space''),
           (''indentWidth'', JNum 2),
           (''lineEnding'', JStr ''lf''),
           (''lineWidth'', JNum 100),
           (''attributePosition'', JStr ''auto'')]),
       (''organizeImports'', JObj [(''enabled'', JBool True)]),
       (''linter'', JObj
          [(''enabled'', JBool True),
           (''rules'', JObj
              [(''recommended'', JBool True),
               (''correctness'', JObj
                  [(''noUnusedVariables'', JStr ''error''),
                   (''noUnusedImports'', JStr ''error'')]),
               (''style'', JObj
                  [(''useConst'', JStr ''error''),
                   (''useTemplate'', JStr ''error'')]),
               (''suspicious'', JObj
                  [(''noExplicitAny'', JStr ''warn''),
                   (''noConsoleLog'', JStr ''warn'')])])]),
       (''javascript'', JObj
          [(''formatter'', JObj
              [(''quoteStyle'', JStr ''single''),
               (''jsxQuoteStyle'', JStr ''double''),
               (''quoteProperties'', JStr ''asNeeded''),
               (''trailingCommas'', JStr ''all''),
               (''semicolons'', JStr ''always''),
               (''arrowParentheses'', JStr ''always''),
               (''bracketSpacing'', JBool True),
               (''bracketSameLine'', JBool False)])]),
       (''json'', JObj
          [(''formatter'', JObj
              [(''enabled'', JBool True),
               (''indentStyle'', JStr ''space''),
               (''indentWidth'', JNum 2),
               (''lineWidth'', JNum 100)]),
           (''linter'', JObj [(''enabled'', JBool True)])])]"

subsection \<open>updatePackageJson\<close>

definition scriptUpdates :: "(string \<times> string) list" where
  "scriptUpdates =
     [(''lint'', ''biome lint .''),
      (''format'', ''biome format --write .''),
      (''format:check'', ''biome format .''),
      (''check'', ''biome check .''),
      (''check:fix'', ''biome check --write .'')]"

text \<open>
  The body of \<^verbatim>\<open>updatePackageJson\<close> between the read and the write: the value that
  \<^verbatim>\<open>JSON.stringify(pkg)\<close> serialises, and \<^verbatim>\<open>removedFields\<close>. The property \<^verbatim>\<open>pkg.scripts\<close> is
  read back at every \<^verbatim>\<open>pkg.scripts[key] = value\<close>: on a primitive \<^verbatim>\<open>pkg\<close> the assignment
  \<^verbatim>\<open>pkg.scripts = ...\<close> was dropped, the read is \<^verbatim>\<open>undefined\<close> and the first of the five
  assignments throws. \<^verbatim>\<open>oldScripts\<close> is returned by the script and never used: it is left out.
\<close>

definition rewritePkg :: "json \<Rightarrow> js_error + (json \<times> string list)" where
  "rewritePkg pkg =
     (if pkg = JNull then Inl TypeError
      else
        let rm1 = truthy_opt (own pkg ''eslintConfig'');
            pkg1 = (if rm1 then delete_prop pkg ''eslintConfig'' else pkg);
            rm2 = truthy_opt (own pkg1 ''prettier'');
            pkg2 = (if rm2 then delete_prop pkg1 ''prettier'' else pkg1);
            removedFields =
              (if rm1 then [''eslintConfig''] else []) @ (if rm2 then [''prettier''] else []);
            scripts0 =
              (case own pkg2 ''scripts'' of
                 None \<Rightarrow> JObj []
               | Some v \<Rightarrow> if truthy v then v else JObj [])
        in if \<not> is_object pkg2 then Inl TypeError
           else
             let scripts1 =
                   fold (\<lambda>(key, value) sc. set_prop sc key (JStr value)) scriptUpdates scripts0
             in Inr (set_prop pkg2 ''scripts'' scripts1, removedFields))"

definition updatePackageJson ::
  "env \<Rightarrow> project \<Rightarrow> (js_error + string list) \<times> project" where
  "updatePackageJson e s =
     (case readJson e ''package.json'' s of
        Inl err \<Rightarrow> (Inl err, s)
      | Inr pkg \<Rightarrow>
          (case rewritePkg pkg of
             Inl err \<Rightarrow> (Inl err, s)
           | Inr (pkg', removedFields) \<Rightarrow>
               (case writeFileSync e ''package.json'' (Json pkg') s of
                  (Inl err, s') \<Rightarrow> (Inl err, s')
                | (Inr u, s') \<Rightarrow> (Inr removedFields, s'))))"

subsection \<open>detectPackageManager, installBiome\<close>

definition detectPackageManager :: "project \<Rightarrow> package_manager" where
  "detectPackageManager s =
     (if existsSync s ''pnpm-lock.yaml'' then Pnpm
      else if existsSync s ''yarn.lock'' then Yarn
      else if existsSync s ''bun.lockb'' then Bun
      else Npm)"

fun installCommand :: "package_manager \<Rightarrow> string" where
  "installCommand Npm = ''npm install --save-dev --save-exact @biomejs/biome''"
| "installCommand Yarn = ''yarn add --dev --exact @biomejs/biome''"
| "installCommand Pnpm = ''pnpm add --save-dev --save-exact @biomejs/biome''"
| "installCommand Bun = ''bun add --dev --exact @biomejs/biome''"

definition installBiome ::
  "env \<Rightarrow> package_manager \<Rightarrow> project \<Rightarrow> (js_error + unit) \<times> project" where
  "installBiome e packageManager s = execSync e (installCommand packageManager) s"

subsection \<open>removeOldPackages\<close>

text \<open>
  The predicate of the \<^verbatim>\<open>filter\<close>, for a \<^verbatim>\<open>pkg\<close> that is not \<^verbatim>\<open>null\<close>:
  \<^verbatim>\<open>(pkg.devDependencies && pkg.devDependencies[name]) || (pkg.dependencies && pkg.dependencies[name])\<close>.
\<close>

definition guarded :: "json option \<Rightarrow> string \<Rightarrow> bool" where
  "guarded tab name =
     (case tab of None \<Rightarrow> False | Some t \<Rightarrow> truthy t \<and> truthy_opt (own t name))"

definition inManifest :: "json \<Rightarrow> string \<Rightarrow> bool" where
  "inManifest pkg name =
     (guarded (own pkg ''devDependencies'') name \<or> guarded (own pkg ''dependencies'') name)"

fun uninstallCommand :: "package_manager \<Rightarrow> string list \<Rightarrow> string" where
  "uninstallCommand Npm toRemove = ''npm uninstall '' @ join '' '' toRemove"
| "uninstallCommand Yarn toRemove = ''yarn remove '' @ join '' '' toRemove"
| "uninstallCommand Pnpm toRemove = ''pnpm remove '' @ join '' '' toRemove"
| "uninstallCommand Bun toRemove = ''bun remove '' @ join '' '' toRemove"

definition removeOldPackages ::
  "env \<Rightarrow> package_manager \<Rightarrow> project \<Rightarrow> (js_error + string list) \<times> project" where
  "removeOldPackages e packageManager s =
     (case readJson e ''package.json'' s of
        Inl err \<Rightarrow> (Inl err, s)
      | Inr pkg \<Rightarrow>
          if pkg = JNull then (Inl TypeError, s)
          else
            let toRemove = filter (inManifest pkg) PACKAGES_TO_REMOVE
            in if length toRemove = 0 then (Inr [], s)
               else
                 (case execSync e (uninstallCommand packageManager toRemove) s of
                    (Inl err, s') \<Rightarrow> (Inl err, s')
                  | (Inr u, s') \<Rightarrow> (Inr toRemove, s')))"

subsection \<open>removeConfigFiles\<close>

text \<open>The \<^verbatim>\<open>forEach\<close> of \<^verbatim>\<open>removeConfigFiles\<close>, with \<open>acc\<close> the array \<^verbatim>\<open>removed\<close> so far.\<close>

fun removeEach ::
  "env \<Rightarrow> string list \<Rightarrow> string list \<Rightarrow> project \<Rightarrow> (js_error + string list) \<times> project" where
  "removeEach e [] acc s = (Inr acc, s)"
| "removeEach e (file # rest) acc s =
     (if str_includes file ''package.json'' then removeEach e rest acc s
      else if existsSync s file then
        (case unlinkSync e file s of
           (Inl err, s') \<Rightarrow> (Inl err, s')
         | (Inr u, s') \<Rightarrow> removeEach e rest (acc @ [file]) s')
      else removeEach e rest acc s)"

definition removeConfigFiles ::
  "env \<Rightarrow> configs \<Rightarrow> project \<Rightarrow> (js_error + string list) \<times> project" where
  "removeConfigFiles e cfgs s = removeEach e (eslint cfgs @ prettier cfgs) [] s"

subsection \<open>main\<close>

text \<open>
  How the process ends: \<open>Completed\<close> is the return of \<^verbatim>\<open>main\<close> (exit status 0),
  \<open>InstallFailed\<close> the \<^verbatim>\<open>process.exit(1)\<close> in the \<^verbatim>\<open>catch\<close> around \<^verbatim>\<open>installBiome\<close>, and
  \<open>Crashed err\<close> an exception that reaches \<^verbatim>\<open>main().catch\<close>, which also exits with 1.
\<close>

datatype outcome = Completed | InstallFailed | Crashed js_error

fun exit_status :: "outcome \<Rightarrow> nat" where
  "exit_status Completed = 0"
| "exit_status InstallFailed = 1"
| "exit_status (Crashed err) = 1"

text \<open>Step 2 of \<^verbatim>\<open>main\<close>: the backup runs when something was detected.\<close>

definition backupStep ::
  "env \<Rightarrow> configs \<Rightarrow> project \<Rightarrow> (js_error + backup_record option) \<times> project" where
  "backupStep e cfgs s =
     (if length (eslint cfgs) > 0 \<or> length (prettier cfgs) > 0 then
        (case backupConfigs e cfgs s of
           (Inl err, s') \<Rightarrow> (Inl err, s')
         | (Inr r, s') \<Rightarrow> (Inr (Some r), s'))
      else (Inr None, s))"

text \<open>Step 8 of \<^verbatim>\<open>main\<close>: the removal runs when something was detected.\<close>

definition removeStep ::
  "env \<Rightarrow> configs \<Rightarrow> project \<Rightarrow> (js_error + string list) \<times> project" where
  "removeStep e cfgs s =
     (if length (eslint cfgs) > 0 \<or> length (prettier cfgs) > 0 then removeConfigFiles e cfgs s
      else (Inr [], s))"

text \<open>
  Steps 5 to 8, which run once Biome is installed. The \<^verbatim>\<open>try\<close> around
  \<^verbatim>\<open>removeOldPackages\<close> catches whatever it throws and only warns, so the run goes on from
  the state the call left.
\<close>

definition afterInstall ::
  "env \<Rightarrow> configs \<Rightarrow> package_manager \<Rightarrow> project \<Rightarrow> outcome \<times> project" where
  "afterInstall e cfgs packageManager s2 =
     (case writeFileSync e ''biome.json'' (Json generateBiomeConfig) s2 of
        (Inl err, s3) \<Rightarrow> (Crashed err, s3)
      | (Inr u, s3) \<Rightarrow>
          (case updatePackageJson e s3 of
             (Inl err, s4) \<Rightarrow> (Crashed err, s4)
           | (Inr removedFields, s4) \<Rightarrow>
               (case removeStep e cfgs (snd (removeOldPackages e packageManager s4)) of
                  (Inl err, s6) \<Rightarrow> (Crashed err, s6)
                | (Inr removed, s6) \<Rightarrow> (Completed, s6))))"

definition main :: "env \<Rightarrow> project \<Rightarrow> outcome \<times> project" where
  "main e s =
     (case findExistingConfigs e s of
        Inl err \<Rightarrow> (Crashed err, s)
      | Inr cfgs \<Rightarrow>
          (case backupStep e cfgs s of
             (Inl err, s1) \<Rightarrow> (Crashed err, s1)
           | (Inr r, s1) \<Rightarrow>
               let packageManager = detectPackageManager s1
               in (case installBiome e packageManager s1 of
                     (Inl err, s2) \<Rightarrow> (InstallFailed, s2)
                   | (Inr u, s2) \<Rightarrow> afterInstall e cfgs packageManager s2)))"

subsection \<open>Notions used to state the properties\<close>

text \<open>
  A standalone entry that is present: not one of the two \<^verbatim>\<open>package.json (... field)\<close>
  markers, and a file of the project root.
\<close>

definition standalone :: "project \<Rightarrow> string \<Rightarrow> bool" where
  "standalone s f = (\<not> str_includes f ''package.json'' \<and> existsSync s f)"

text \<open>The files deleted so far.\<close>

definition unlinks :: "project \<Rightarrow> string set" where
  "unlinks s = {f. Unlink f \<in> set (calls s)}"




text \<open>
  The \<^verbatim>\<open>scripts\<close> of a manifest can take the new entries: the field is absent, falsy, or an
  object. (On a string, a number, \<^verbatim>\<open>true\<close> or an array the five assignments leave no trace
  in the written file.)
\<close>

definition scripts_slot_free :: "json \<Rightarrow> bool" where
  "scripts_slot_free pkg =
     (case own pkg ''scripts'' of
        None \<Rightarrow> True
      | Some (JObj sc) \<Rightarrow> True
      | Some v \<Rightarrow> \<not> truthy v)"

text \<open>The five assignments of \<^verbatim>\<open>updatePackageJson\<close> on the properties of \<^verbatim>\<open>pkg.scripts\<close>.\<close>

definition new_scripts :: "(string \<times> json) list \<Rightarrow> (string \<times> json) list" where
  "new_scripts sc =
     AList.update ''check:fix'' (JStr ''biome check --write .'')
      (AList.update ''check'' (JStr ''biome check .'')
        (AList.update ''format:check'' (JStr ''biome format .'')
          (AList.update ''format'' (JStr ''biome format --write .'')
            (AList.update ''lint'' (JStr ''biome lint .'') sc))))"

text \<open>The properties of \<^verbatim>\<open>pkg\<close> left after the two \<^verbatim>\<open>delete\<close>s of \<^verbatim>\<open>updatePackageJson\<close>.\<close>

definition stripped :: "(string \<times> json) list \<Rightarrow> (string \<times> json) list" where
  "stripped kvs =
     (let kvs1 = (if truthy_opt (map_of kvs ''eslintConfig'')
                  then AList.delete ''eslintConfig'' kvs else kvs)
      in if truthy_opt (map_of kvs1 ''prettier'') then AList.delete ''prettier'' kvs1 else kvs1)"

text \<open>
  The value of \<^verbatim>\<open>pkg.scripts\<close> after \<^verbatim>\<open>updatePackageJson\<close>, from its value before
  (\<open>None\<close> when the property is absent).
\<close>

definition scripts_after :: "json option \<Rightarrow> json" where
  "scripts_after v =
     fold (\<lambda>(key, value) sc. set_prop sc key (JStr value)) scriptUpdates
       (case v of None \<Rightarrow> JObj [] | Some x \<Rightarrow> if truthy x then x else JObj [])"

text \<open>
  A package manager that keeps to its own business. Of a manifest that is an object it
  changes at most the \<^verbatim>\<open>dependencies\<close> and \<^verbatim>\<open>devDependencies\<close> fields; any other manifest
  it leaves alone. It does not touch the legacy configuration files or \<^verbatim>\<open>biome.json\<close>.
  Lock files, \<^verbatim>\<open>node_modules\<close> and the backup directory are not constrained.
\<close>

definition kept :: "json \<Rightarrow> json \<Rightarrow> bool" where
  "kept p p' =
     (case p of
        JObj kvs \<Rightarrow>
          (\<exists>kvs'. p' = JObj kvs' \<and>
             (\<forall>k. k \<noteq> ''dependencies'' \<and> k \<noteq> ''devDependencies'' \<longrightarrow>
                  map_of kvs' k = map_of kvs k))
      | _ \<Rightarrow> p' = p)"

definition same_manifest :: "content option \<Rightarrow> content option \<Rightarrow> bool" where
  "same_manifest c c' =
     (case c of
        Some (Json p) \<Rightarrow> (\<exists>p'. c' = Some (Json p') \<and> kept p p')
      | _ \<Rightarrow> c' = c)"

definition confined :: "env \<Rightarrow> bool" where
  "confined e =
     (\<forall>command s.
        (\<forall>f \<in> set (eslint CONFIG_FILES @ prettier CONFIG_FILES) \<union> {''biome.json''}.
            files (snd (exec e command s)) f = files s f) \<and>
        same_manifest (files s ''package.json'') (files (snd (exec e command s)) ''package.json''))"

text \<open>The \<^verbatim>\<open>scripts\<close> field of the manifest on disk.\<close>

definition manifestScripts :: "project \<Rightarrow> json option" where
  "manifestScripts s =
     (case files s ''package.json'' of Some (Json pkg) \<Rightarrow> own pkg ''scripts'' | _ \<Rightarrow> None)"

subsection \<open>A sample project\<close>

text \<open>
  An environment in which no call fails and the package manager leaves the project as it
  is, and a Yarn project with an ESLint file, a Prettier file and an embedded Prettier field.
\<close>

definition quiet :: env where
  "quiet =
     \<lparr>read_fails = (\<lambda>f. False), mkdir_fails = False, copy_fails = (\<lambda>f. False),
      write_fails = (\<lambda>f. False), unlink_fails = (\<lambda>f. False),
      exec = (\<lambda>command s. (True, s))\<rparr>"

definition sample_manifest :: json where
  "sample_manifest =
     JObj [(''name'', JStr ''demo''),
           (''scripts'', JObj [(''lint'', JStr ''old-lint''), (''test'', JStr ''jest'')]),
           (''prettier'', JObj [(''semi'', JBool False)]),
           (''devDependencies'',
              JObj [(''eslint'', JStr ''^8.57.0''), (''jest'', JStr ''^29.0.0''),
                    (''prettier'', JStr ''^3.0.0'')])]"

definition sample :: project where
  "sample =
     \<lparr>files = [''package.json'' \<mapsto> Json sample_manifest,
               ''.eslintrc.json'' \<mapsto> Json (JObj [(''root'', JBool True)]),
               ''prettier.config.js'' \<mapsto> NotJson ''module.exports = {};'',
               ''yarn.lock'' \<mapsto> NotJson ''# yarn lockfile v1''],
      backup = None,
      calls = []\<rparr>"

text \<open>The same, but every package manager command fails and changes nothing.\<close>

definition offline :: env where
  "offline = quiet\<lparr>exec := (\<lambda>command s. (False, s))\<rparr>"

text \<open>Environments in which one call fails: the copy of \<^verbatim>\<open>.eslintrc.json\<close>, the write of the manifest.\<close>

definition copy_blocked :: env where
  "copy_blocked = quiet\<lparr>copy_fails := (\<lambda>f. f = ''.eslintrc.json'')\<rparr>"

definition manifest_locked :: env where
  "manifest_locked = quiet\<lparr>write_fails := (\<lambda>f. f = ''package.json'')\<rparr>"

text \<open>The sample project with a manifest that is not JSON.\<close>

definition broken :: project where
  "broken = sample\<lparr>files := (files sample)(''package.json'' \<mapsto> NotJson ''{ name: demo,'')\<rparr>"

text \<open>A project whose only legacy configuration is a field of the manifest.\<close>

definition embedded_only :: project where
  "embedded_only =
     \<lparr>files = [''package.json'' \<mapsto>
                 Json (JObj [(''name'', JStr ''demo''),
                             (''eslintConfig'', JObj [(''root'', JBool True)])])],
      backup = None,
      calls = []\<rparr>"

text \<open>A project whose manifest has no \<^verbatim>\<open>scripts\<close>.\<close>

definition bare :: project where
  "bare =
     \<lparr>files = [''package.json'' \<mapsto>
                 Json (JObj [(''name'', JStr ''demo''), (''version'', JStr ''1.0.0'')])],
      backup = None,
      calls = []\<rparr>"

text \<open>The sample project after \<^verbatim>\<open>.eslintrc.json\<close> has disappeared.\<close>

definition vanished :: project where
  "vanished = sample\<lparr>files := (files sample)(''.eslintrc.json'' := None)\<rparr>"



text \<open>A project whose manifest has a string for \<^verbatim>\<open>scripts\<close>.\<close>

definition stringly :: project where
  "stringly =
     \<lparr>files = [''package.json'' \<mapsto>
                 Json (JObj [(''name'', JStr ''demo''), (''scripts'', JStr ''none'')])],
      backup = None,
      calls = []\<rparr>"

section \<open>Properties\<close>

subsection \<open>Facts about the single steps\<close>

lemma config_files_standalone:
  "f \<in> set (eslint CONFIG_FILES @ prettier CONFIG_FILES) \<Longrightarrow> \<not> str_includes f ''package.json''"
  by (auto simp: CONFIG_FILES_def)

lemma standalone_cong: "files s' = files s \<Longrightarrow> standalone s' = standalone s"
  by (auto simp: standalone_def existsSync_def fun_eq_iff)

lemma copyFileSync_ok:
  "copyFileSync e f s = (Inr u, s') \<Longrightarrow>
     \<exists>c b. files s f = Some c \<and> backup s = Some b \<and> \<not> copy_fails e f \<and>
       s' = s\<lparr>backup := Some (b(f \<mapsto> c)), calls := calls s @ [CopyFile f]\<rparr>"
  by (auto simp: copyFileSync_def split: if_splits option.splits)

lemma copyFileSync_err: "copyFileSync e f s = (Inl err, s') \<Longrightarrow> s' = s \<and> err = IOError"
  by (auto simp: copyFileSync_def split: if_splits option.splits)

lemma unlinkSync_ok:
  "unlinkSync e f s = (Inr u, s') \<Longrightarrow>
     files s f \<noteq> None \<and> \<not> unlink_fails e f \<and>
       s' = s\<lparr>files := (files s)(f := None), calls := calls s @ [Unlink f]\<rparr>"
  by (auto simp: unlinkSync_def split: if_splits)

lemma unlinkSync_err: "unlinkSync e f s = (Inl err, s') \<Longrightarrow> s' = s \<and> err = IOError"
  by (auto simp: unlinkSync_def split: if_splits)

lemma backupEach_files:
  "backupEach e xs acc s = (r, s') \<Longrightarrow> files s' = files s"
proof (induction e xs acc s rule: backupEach.induct)
  case (1 e acc s)
  then show ?case by simp
next
  case (2 e f rest acc s)
  then show ?case
    by (auto split: if_splits prod.splits sum.splits dest!: copyFileSync_ok copyFileSync_err)
qed

lemma backupEach_ok:
  "backupEach e xs acc s = (Inr acc', s') \<Longrightarrow>
     acc' = acc @ filter (standalone s) xs \<and>
     calls s' = calls s @ map CopyFile (filter (standalone s) xs) \<and>
     (\<forall>g \<in> set (filter (standalone s) xs). \<not> copy_fails e g)"
proof (induction xs arbitrary: acc s)
  case Nil
  then show ?case by simp
next
  case (Cons f rest)
  show ?case
  proof (cases "standalone s f")
    case False
    then have "backupEach e (f # rest) acc s = backupEach e rest acc s"
      by (auto simp: standalone_def)
    with Cons.prems have "backupEach e rest acc s = (Inr acc', s')" by simp
    from Cons.IH[OF this] False show ?thesis by simp
  next
    case True
    then have step: "backupEach e (f # rest) acc s =
        (case copyFileSync e f s of
           (Inl err, s1) \<Rightarrow> (Inl err, s1)
         | (Inr u, s1) \<Rightarrow> backupEach e rest (acc @ [f]) s1)"
      by (simp add: standalone_def)
    obtain r1 s1 where c: "copyFileSync e f s = (r1, s1)" by (cases "copyFileSync e f s")
    with step Cons.prems obtain u where r1: "r1 = Inr u"
      and rest: "backupEach e rest (acc @ [f]) s1 = (Inr acc', s')"
      by (cases r1) auto
    from copyFileSync_ok[OF c[unfolded r1]]
    have fs: "files s1 = files s" and cs: "calls s1 = calls s @ [CopyFile f]"
      and nf: "\<not> copy_fails e f"
      by auto
    have st: "standalone s1 = standalone s" using fs by (rule standalone_cong)
    from Cons.IH[OF rest] True st cs nf show ?thesis by simp
  qed
qed

lemma backupEach_backup:
  "backupEach e xs acc s = (Inr acc', s') \<Longrightarrow> backup s = Some b \<Longrightarrow>
     backup s' = Some (\<lambda>g. if g \<in> set (filter (standalone s) xs) then files s g else b g)"
proof (induction xs arbitrary: acc s b)
  case Nil
  then show ?case by simp
next
  case (Cons f rest)
  show ?case
  proof (cases "standalone s f")
    case False
    then have "backupEach e (f # rest) acc s = backupEach e rest acc s"
      by (auto simp: standalone_def)
    with Cons.prems have "backupEach e rest acc s = (Inr acc', s')" by simp
    from Cons.IH[OF this Cons.prems(2)] False show ?thesis by simp
  next
    case True
    then have step: "backupEach e (f # rest) acc s =
        (case copyFileSync e f s of
           (Inl err, s1) \<Rightarrow> (Inl err, s1)
         | (Inr u, s1) \<Rightarrow> backupEach e rest (acc @ [f]) s1)"
      by (simp add: standalone_def)
    obtain r1 s1 where c: "copyFileSync e f s = (r1, s1)" by (cases "copyFileSync e f s")
    with step Cons.prems obtain u where r1: "r1 = Inr u"
      and rest: "backupEach e rest (acc @ [f]) s1 = (Inr acc', s')"
      by (cases r1) auto
    from copyFileSync_ok[OF c[unfolded r1]] Cons.prems(2)
    obtain c0 where fs: "files s1 = files s" and c0: "files s f = Some c0"
      and b1: "backup s1 = Some (b(f \<mapsto> c0))"
      by auto
    have st: "standalone s1 = standalone s" using fs by (rule standalone_cong)
    have "backup s' = Some (\<lambda>g. if g \<in> set (filter (standalone s) rest) then files s g
                               else (b(f \<mapsto> c0)) g)"
      using Cons.IH[OF rest b1] unfolding st fs .
    moreover have "(\<lambda>g. if g \<in> set (filter (standalone s) rest) then files s g
                               else (b(f \<mapsto> c0)) g) =
       (\<lambda>g. if g \<in> set (filter (standalone s) (f # rest)) then files s g else b g)"
      using True c0 by (intro ext) simp
    ultimately show ?thesis by simp
  qed
qed

subsection \<open>No step but the removal deletes a file\<close>

lemma writeFileSync_cases:
  "writeFileSync e f c s = (r, s') \<Longrightarrow>
     (r = Inl IOError \<and> s' = s \<and> write_fails e f) \<or>
     (r = Inr () \<and> \<not> write_fails e f \<and>
      s' = s\<lparr>files := (files s)(f \<mapsto> c), calls := calls s @ [WriteFile f]\<rparr>)"
  by (auto simp: writeFileSync_def split: if_splits)

lemma writeFileSync_unlinks: "writeFileSync e f c s = (r, s') \<Longrightarrow> unlinks s' = unlinks s"
  by (auto simp: unlinks_def dest!: writeFileSync_cases)

lemma mkdirSync_cases:
  "mkdirSync e s = (r, s') \<Longrightarrow>
     (r = Inl IOError \<and> s' = s \<and> mkdir_fails e) \<or>
     (r = Inr () \<and> \<not> mkdir_fails e \<and>
      s' = s\<lparr>backup := Some (case backup s of None \<Rightarrow> Map.empty | Some b \<Rightarrow> b),
              calls := calls s @ [Mkdir]\<rparr>)"
  by (auto simp: mkdirSync_def split: if_splits)

lemma execSync_calls: "execSync e cmd s = (r, s') \<Longrightarrow> calls s' = calls s @ [Exec cmd]"
  by (auto simp: execSync_def split: prod.splits)

lemma execSync_unlinks: "execSync e cmd s = (r, s') \<Longrightarrow> unlinks s' = unlinks s"
  by (auto simp: unlinks_def dest!: execSync_calls)

lemma updatePackageJson_unlinks: "updatePackageJson e s = (r, s') \<Longrightarrow> unlinks s' = unlinks s"
  by (auto simp: updatePackageJson_def split: sum.splits prod.splits dest: writeFileSync_unlinks)

lemma removeOldPackages_unlinks: "removeOldPackages e pm s = (r, s') \<Longrightarrow> unlinks s' = unlinks s"
  by (auto simp: removeOldPackages_def Let_def split: sum.splits prod.splits if_splits
           dest: execSync_unlinks)

lemma backupEach_unlinks: "backupEach e xs acc s = (r, s') \<Longrightarrow> unlinks s' = unlinks s"
proof (induction xs arbitrary: acc s)
  case Nil
  then show ?case by simp
next
  case (Cons f rest)
  show ?case
  proof (cases "standalone s f")
    case False
    then have "backupEach e (f # rest) acc s = backupEach e rest acc s"
      by (auto simp: standalone_def)
    with Cons show ?thesis by simp
  next
    case True
    then have step: "backupEach e (f # rest) acc s =
        (case copyFileSync e f s of
           (Inl err, s1) \<Rightarrow> (Inl err, s1)
         | (Inr u, s1) \<Rightarrow> backupEach e rest (acc @ [f]) s1)"
      by (simp add: standalone_def)
    obtain r1 s1 where c: "copyFileSync e f s = (r1, s1)" by (cases "copyFileSync e f s")
    show ?thesis
    proof (cases r1)
      case (Inl err)
      with c step Cons.prems copyFileSync_err[of e f s err s1] show ?thesis by auto
    next
      case (Inr u)
      with c step Cons.prems have rest: "backupEach e rest (acc @ [f]) s1 = (r, s')" by simp
      from copyFileSync_ok[OF c[unfolded Inr]] have "unlinks s1 = unlinks s"
        by (auto simp: unlinks_def)
      with Cons.IH[OF rest] show ?thesis by simp
    qed
  qed
qed

lemma backupConfigs_unlinks: "backupConfigs e cfgs s = (r, s') \<Longrightarrow> unlinks s' = unlinks s"
proof -
  assume a: "backupConfigs e cfgs s = (r, s')"
  obtain r0 s0 where m: "(if backup s = None then mkdirSync e s else (Inr (), s)) = (r0, s0)"
    by (cases "if backup s = None then mkdirSync e s else (Inr (), s)")
  then have u0: "unlinks s0 = unlinks s"
    by (auto simp: unlinks_def split: if_splits dest!: mkdirSync_cases)
  show ?thesis
  proof (cases r0)
    case (Inl err)
    with a m u0 show ?thesis by (simp add: backupConfigs_def)
  next
    case (Inr u)
    obtain r1 s1 where b: "backupEach e (eslint cfgs @ prettier cfgs) [] s0 = (r1, s1)"
      by (cases "backupEach e (eslint cfgs @ prettier cfgs) [] s0")
    with a m Inr have "s' = s1" by (auto simp: backupConfigs_def split: sum.splits)
    with backupEach_unlinks[OF b] u0 show ?thesis by simp
  qed
qed

lemma backupStep_unlinks: "backupStep e cfgs s = (r, s') \<Longrightarrow> unlinks s' = unlinks s"
  by (auto simp: backupStep_def split: if_splits prod.splits sum.splits dest: backupConfigs_unlinks)

lemma removeEach_unlinks:
  "removeEach e xs acc s = (r, s') \<Longrightarrow>
     unlinks s' \<subseteq> unlinks s \<union> {f \<in> set xs. \<not> str_includes f ''package.json''}"
proof (induction xs arbitrary: acc s)
  case Nil
  then show ?case by simp
next
  case (Cons f rest)
  show ?case
  proof (cases "standalone s f")
    case False
    then have "removeEach e (f # rest) acc s = removeEach e rest acc s"
      by (auto simp: standalone_def)
    with Cons.prems have "removeEach e rest acc s = (r, s')" by simp
    from Cons.IH[OF this] show ?thesis by auto
  next
    case True
    then have step: "removeEach e (f # rest) acc s =
        (case unlinkSync e f s of
           (Inl err, s1) \<Rightarrow> (Inl err, s1)
         | (Inr u, s1) \<Rightarrow> removeEach e rest (acc @ [f]) s1)"
      by (simp add: standalone_def)
    obtain r1 s1 where c: "unlinkSync e f s = (r1, s1)" by (cases "unlinkSync e f s")
    show ?thesis
    proof (cases r1)
      case (Inl err)
      with c step Cons.prems unlinkSync_err[of e f s err s1] show ?thesis by auto
    next
      case (Inr u)
      with c step Cons.prems have rest: "removeEach e rest (acc @ [f]) s1 = (r, s')" by simp
      from unlinkSync_ok[OF c[unfolded Inr]] have "unlinks s1 = unlinks s \<union> {f}"
        by (auto simp: unlinks_def)
      with Cons.IH[OF rest] True show ?thesis by (auto simp: standalone_def)
    qed
  qed
qed

lemma removeStep_unlinks:
  "removeStep e cfgs s = (r, s') \<Longrightarrow>
     unlinks s' \<subseteq> unlinks s \<union>
       {f \<in> set (eslint cfgs @ prettier cfgs). \<not> str_includes f ''package.json''}"
  by (auto simp: removeStep_def removeConfigFiles_def split: if_splits dest!: removeEach_unlinks)

lemma afterInstall_unlinks:
  assumes "afterInstall e cfgs pm s2 = (out, s')"
  shows "unlinks s' \<subseteq> unlinks s2 \<union>
       {f \<in> set (eslint cfgs @ prettier cfgs). \<not> str_includes f ''package.json''}"
proof -
  obtain r3 s3 where w: "writeFileSync e ''biome.json'' (Json generateBiomeConfig) s2 = (r3, s3)"
    by (cases "writeFileSync e ''biome.json'' (Json generateBiomeConfig) s2")
  obtain r4 s4 where u: "updatePackageJson e s3 = (r4, s4)" by (cases "updatePackageJson e s3")
  obtain r5 s5 where p: "removeOldPackages e pm s4 = (r5, s5)"
    by (cases "removeOldPackages e pm s4")
  obtain r6 s6 where d: "removeStep e cfgs s5 = (r6, s6)" by (cases "removeStep e cfgs s5")
  note us = writeFileSync_unlinks[OF w] updatePackageJson_unlinks[OF u]
    removeOldPackages_unlinks[OF p] removeStep_unlinks[OF d]
  from assms w u p d have "s' = s3 \<or> s' = s4 \<or> s' = s6"
    by (auto simp: afterInstall_def split: sum.splits)
  with us show ?thesis by auto
qed

subsection \<open>What detection and backup return\<close>

lemma findExistingConfigs_ok:
  assumes "findExistingConfigs e s = Inr cfgs"
  shows "\<exists>es ps.
     eslint cfgs = filter (existsSync s) (eslint CONFIG_FILES) @ es \<and>
     prettier cfgs = filter (existsSync s) (prettier CONFIG_FILES) @ ps \<and>
     set es \<subseteq> {''package.json (eslintConfig field)''} \<and>
     set ps \<subseteq> {''package.json (prettier field)''}"
proof (cases "existsSync s ''package.json''")
  case False
  with assms have "cfgs = \<lparr>eslint = filter (existsSync s) (eslint CONFIG_FILES),
                           prettier = filter (existsSync s) (prettier CONFIG_FILES)\<rparr>"
    by (simp add: findExistingConfigs_def Let_def)
  then show ?thesis by simp
next
  case True
  with assms obtain ec pr where
    "cfgs = \<lparr>eslint = filter (existsSync s) (eslint CONFIG_FILES) @
                (if truthy_opt ec then [''package.json (eslintConfig field)''] else []),
             prettier = filter (existsSync s) (prettier CONFIG_FILES) @
                (if truthy_opt pr then [''package.json (prettier field)''] else [])\<rparr>"
    by (auto simp: findExistingConfigs_def Let_def split: sum.splits)
  then show ?thesis by auto
qed

lemma detected_standalone:
  assumes "findExistingConfigs e s = Inr cfgs"
    and "f \<in> set (eslint cfgs @ prettier cfgs)"
    and "\<not> str_includes f ''package.json''"
  shows "standalone s f"
proof -
  from findExistingConfigs_ok[OF assms(1)] obtain es ps where
    l: "eslint cfgs = filter (existsSync s) (eslint CONFIG_FILES) @ es"
       "prettier cfgs = filter (existsSync s) (prettier CONFIG_FILES) @ ps"
    and sen: "set es \<subseteq> {''package.json (eslintConfig field)''}"
       "set ps \<subseteq> {''package.json (prettier field)''}"
    by blast
  have "f \<notin> set es" "f \<notin> set ps" using sen assms(3) by auto
  with assms(2) l have "existsSync s f" by auto
  with assms(3) show ?thesis by (simp add: standalone_def)
qed

lemma backupConfigs_ok:
  assumes "backupConfigs e cfgs s = (Inr r, s')"
  shows "files s' = files s"
    and "backupDir r = ''.biome-migration-backup''"
    and "backedUp r = filter (standalone s) (eslint cfgs @ prettier cfgs)"
    and "calls s' = calls s @ (if backup s = None then [Mkdir] else []) @
           map CopyFile (backedUp r)"
    and "backup s' = Some (\<lambda>g. if g \<in> set (backedUp r) then files s g
                                else (case backup s of None \<Rightarrow> None | Some b \<Rightarrow> b g))"
    and "\<forall>g \<in> set (backedUp r). \<not> copy_fails e g"
    and "backup s = None \<longrightarrow> \<not> mkdir_fails e"
proof -
  obtain r0 s0 where m: "(if backup s = None then mkdirSync e s else (Inr (), s)) = (r0, s0)"
    by (cases "if backup s = None then mkdirSync e s else (Inr (), s)")
  with assms obtain u where r0: "r0 = Inr u"
    by (cases r0) (auto simp: backupConfigs_def)
  from m r0 have s0: "files s0 = files s"
      "calls s0 = calls s @ (if backup s = None then [Mkdir] else [])"
      "backup s0 = Some (case backup s of None \<Rightarrow> Map.empty | Some b \<Rightarrow> b)"
      "backup s = None \<longrightarrow> \<not> mkdir_fails e"
    by (auto split: if_splits dest!: mkdirSync_cases)
  have st: "standalone s0 = standalone s" using s0(1) by (rule standalone_cong)
  obtain r1 s1 where b: "backupEach e (eslint cfgs @ prettier cfgs) [] s0 = (r1, s1)"
    by (cases "backupEach e (eslint cfgs @ prettier cfgs) [] s0")
  with assms m r0 obtain acc where r1: "r1 = Inr acc"
    and r: "r = \<lparr>backupDir = ''.biome-migration-backup'', backedUp = acc\<rparr>" and s1: "s' = s1"
    by (cases r1) (auto simp: backupConfigs_def)
  note ok = backupEach_ok[OF b[unfolded r1], unfolded st]
  note bk = backupEach_backup[OF b[unfolded r1] s0(3), unfolded st s0(1)]
  show "files s' = files s" using backupEach_files[OF b] s0(1) s1 by simp
  show "backupDir r = ''.biome-migration-backup''" using r by simp
  show bu: "backedUp r = filter (standalone s) (eslint cfgs @ prettier cfgs)"
    using ok r by simp
  show "calls s' = calls s @ (if backup s = None then [Mkdir] else []) @
           map CopyFile (backedUp r)"
    using ok s0(2) s1 bu by simp
  show "\<forall>g \<in> set (backedUp r). \<not> copy_fails e g" using ok bu by simp
  show "backup s = None \<longrightarrow> \<not> mkdir_fails e" by (rule s0(4))
  have "(\<lambda>g. if g \<in> set (filter (standalone s) (eslint cfgs @ prettier cfgs)) then files s g
              else (case backup s of None \<Rightarrow> Map.empty | Some b \<Rightarrow> b) g) =
        (\<lambda>g. if g \<in> set (backedUp r) then files s g
              else (case backup s of None \<Rightarrow> None | Some b \<Rightarrow> b g))"
    unfolding bu by (intro ext) (simp split: option.splits)
  with bk s1 show "backup s' = Some (\<lambda>g. if g \<in> set (backedUp r) then files s g
                                else (case backup s of None \<Rightarrow> None | Some b \<Rightarrow> b g))"
    by simp
qed

lemma backupStep_ok:
  assumes "backupStep e cfgs s = (Inr r, s1)"
  shows "files s1 = files s"
    and "calls s1 = calls s @ (if r \<noteq> None \<and> backup s = None then [Mkdir] else []) @
           map CopyFile (case r of None \<Rightarrow> [] | Some b \<Rightarrow> backedUp b)"
    and "\<forall>g. g \<notin> set (case r of None \<Rightarrow> [] | Some b \<Rightarrow> backedUp b) \<longrightarrow>
           (case backup s1 of None \<Rightarrow> None | Some d \<Rightarrow> d g) =
           (case backup s of None \<Rightarrow> None | Some d \<Rightarrow> d g)"
proof -
  show "files s1 = files s"
    using assms backupConfigs_ok(1)[of e cfgs s _ s1]
    by (auto simp: backupStep_def split: if_splits prod.splits sum.splits)
  show "calls s1 = calls s @ (if r \<noteq> None \<and> backup s = None then [Mkdir] else []) @
           map CopyFile (case r of None \<Rightarrow> [] | Some b \<Rightarrow> backedUp b)"
    using assms backupConfigs_ok(4)[of e cfgs s _ s1]
    by (auto simp: backupStep_def split: if_splits prod.splits sum.splits)
  show "\<forall>g. g \<notin> set (case r of None \<Rightarrow> [] | Some b \<Rightarrow> backedUp b) \<longrightarrow>
           (case backup s1 of None \<Rightarrow> None | Some d \<Rightarrow> d g) =
           (case backup s of None \<Rightarrow> None | Some d \<Rightarrow> d g)"
  proof (cases r)
    case None
    with assms have "s1 = s"
      by (auto simp: backupStep_def split: if_splits prod.splits sum.splits)
    then show ?thesis by simp
  next
    case (Some b)
    with assms have "backupConfigs e cfgs s = (Inr b, s1)"
      by (auto simp: backupStep_def split: if_splits prod.splits sum.splits)
    from backupConfigs_ok(5)[OF this] Some show ?thesis by simp
  qed
qed

lemma backupEach_fail:
  assumes "backup s \<noteq> None"
    and "standalone s f" "copy_fails e f"
    and "\<forall>g \<in> set before. standalone s g \<longrightarrow> \<not> copy_fails e g"
  shows "\<exists>s'. backupEach e (before @ f # after) acc s = (Inl IOError, s') \<and>
      files s' = files s \<and>
      calls s' = calls s @ map CopyFile (filter (standalone s) before)"
  using assms
proof (induction before arbitrary: acc s)
  case Nil
  then show ?case by (auto simp: standalone_def existsSync_def copyFileSync_def)
next
  case (Cons g rest)
  show ?case
  proof (cases "standalone s g")
    case False
    then have "backupEach e ((g # rest) @ f # after) acc s = backupEach e (rest @ f # after) acc s"
      by (auto simp: standalone_def)
    moreover from Cons.IH[of s acc] Cons.prems
    obtain s' where "backupEach e (rest @ f # after) acc s = (Inl IOError, s')"
      "files s' = files s" "calls s' = calls s @ map CopyFile (filter (standalone s) rest)"
      by auto
    ultimately show ?thesis using False by simp
  next
    case True
    with Cons.prems have nf: "\<not> copy_fails e g" by simp
    from True Cons.prems(1) obtain c b where cb: "files s g = Some c" "backup s = Some b"
      by (auto simp: standalone_def existsSync_def)
    let ?s1 = "s\<lparr>backup := Some (b(g \<mapsto> c)), calls := calls s @ [CopyFile g]\<rparr>"
    from cb nf have c1: "copyFileSync e g s = (Inr (), ?s1)" by (simp add: copyFileSync_def)
    with True have step: "backupEach e ((g # rest) @ f # after) acc s =
        backupEach e (rest @ f # after) (acc @ [g]) ?s1"
      by (simp add: standalone_def)
    have st: "standalone ?s1 = standalone s" by (rule standalone_cong) simp
    from Cons.IH[of ?s1 "acc @ [g]"] Cons.prems st
    obtain s' where "backupEach e (rest @ f # after) (acc @ [g]) ?s1 = (Inl IOError, s')"
      "files s' = files ?s1" "calls s' = calls ?s1 @ map CopyFile (filter (standalone s) rest)"
      by auto
    with step True show ?thesis by simp
  qed
qed

subsection \<open>The filter of \<^verbatim>\<open>removeOldPackages\<close>\<close>





subsection \<open>The rewritten manifest\<close>

lemma backupEach_sentinels:
  "\<forall>f \<in> set xs. str_includes f ''package.json'' \<Longrightarrow> backupEach e xs acc s = (Inr acc, s)"
  by (induction xs) simp_all

lemma fold_scriptUpdates:
  "fold (\<lambda>(key, value) sc. set_prop sc key (JStr value)) scriptUpdates (JObj sc) =
     JObj (new_scripts sc)"
  by (simp add: scriptUpdates_def new_scripts_def)

lemma new_scripts_entries:
  "map_of (new_scripts sc) ''lint'' = Some (JStr ''biome lint .'')"
  "map_of (new_scripts sc) ''format'' = Some (JStr ''biome format --write .'')"
  "map_of (new_scripts sc) ''format:check'' = Some (JStr ''biome format .'')"
  "map_of (new_scripts sc) ''check'' = Some (JStr ''biome check .'')"
  "map_of (new_scripts sc) ''check:fix'' = Some (JStr ''biome check --write .'')"
  by (simp_all add: new_scripts_def AList.update_conv')

lemma stripped_others:
  "k \<noteq> ''eslintConfig'' \<Longrightarrow> k \<noteq> ''prettier'' \<Longrightarrow> map_of (stripped kvs) k = map_of kvs k"
  by (simp add: stripped_def Let_def)

lemma rewritePkg_JObj:
  "\<exists>removedFields.
     rewritePkg (JObj kvs) =
       Inr (set_prop (JObj (stripped kvs)) ''scripts''
              (fold (\<lambda>(key, value) sc. set_prop sc key (JStr value)) scriptUpdates
                 (case map_of (stripped kvs) ''scripts'' of
                    None \<Rightarrow> JObj []
                  | Some v \<Rightarrow> if truthy v then v else JObj [])),
            removedFields)"
proof (cases "truthy_opt (map_of kvs ''eslintConfig'')")
  case True
  note a = this
  show ?thesis
  proof (cases "truthy_opt (map_of (AList.delete ''eslintConfig'' kvs) ''prettier'')")
    case True
    with a show ?thesis by (simp add: rewritePkg_def stripped_def Let_def)
  next
    case False
    with a show ?thesis by (simp add: rewritePkg_def stripped_def Let_def)
  qed
next
  case False
  note a = this
  show ?thesis
  proof (cases "truthy_opt (map_of kvs ''prettier'')")
    case True
    with a show ?thesis by (simp add: rewritePkg_def stripped_def Let_def)
  next
    case False
    with a show ?thesis by (simp add: rewritePkg_def stripped_def Let_def)
  qed
qed

lemma rewritePkg_obj:
  assumes "scripts_slot_free (JObj kvs)"
  shows "\<exists>removedFields.
     rewritePkg (JObj kvs) =
       Inr (JObj (AList.update ''scripts''
                   (JObj (new_scripts (case map_of kvs ''scripts'' of
                                         Some (JObj sc) \<Rightarrow> sc | _ \<Rightarrow> [])))
                   (stripped kvs)),
            removedFields)"
proof -
  have sc: "map_of (stripped kvs) ''scripts'' = map_of kvs ''scripts''"
    by (rule stripped_others) simp_all
  have s0: "(case map_of kvs ''scripts'' of None \<Rightarrow> JObj []
              | Some v \<Rightarrow> if truthy v then v else JObj []) =
        JObj (case map_of kvs ''scripts'' of Some (JObj sc) \<Rightarrow> sc | _ \<Rightarrow> [])"
  proof (cases "map_of kvs ''scripts''")
    case None
    then show ?thesis by simp
  next
    case (Some v)
    with assms show ?thesis by (cases v) (simp_all add: scripts_slot_free_def)
  qed
  from rewritePkg_JObj[of kvs] show ?thesis
    unfolding sc s0 fold_scriptUpdates by simp
qed

subsection \<open>Entries whose file is missing, and what the removal leaves\<close>

lemma backupEach_absent:
  "\<not> existsSync s f \<Longrightarrow> backupEach e xs acc s = backupEach e (removeAll f xs) acc s"
proof (induction xs arbitrary: acc s)
  case Nil
  then show ?case by simp
next
  case (Cons g rest)
  show ?case
  proof (cases "g = f")
    case True
    with Cons show ?thesis by simp
  next
    case False
    show ?thesis
    proof (cases "standalone s g")
      case False
      with Cons \<open>g \<noteq> f\<close> show ?thesis by (auto simp: standalone_def)
    next
      case True
      obtain r1 s1 where c: "copyFileSync e g s = (r1, s1)" by (cases "copyFileSync e g s")
      show ?thesis
      proof (cases r1)
        case (Inl err)
        with c True \<open>g \<noteq> f\<close> show ?thesis by (simp add: standalone_def)
      next
        case (Inr u)
        from copyFileSync_ok[OF c[unfolded Inr]] have "files s1 = files s" by auto
        with Cons.prems have "\<not> existsSync s1 f" by (simp add: existsSync_def)
        from Cons.IH[OF this] c Inr True \<open>g \<noteq> f\<close> show ?thesis by (simp add: standalone_def)
      qed
    qed
  qed
qed

lemma removeEach_absent:
  "\<not> existsSync s f \<Longrightarrow> removeEach e xs acc s = removeEach e (removeAll f xs) acc s"
proof (induction xs arbitrary: acc s)
  case Nil
  then show ?case by simp
next
  case (Cons g rest)
  show ?case
  proof (cases "g = f")
    case True
    with Cons show ?thesis by simp
  next
    case False
    show ?thesis
    proof (cases "standalone s g")
      case False
      with Cons \<open>g \<noteq> f\<close> show ?thesis by (auto simp: standalone_def)
    next
      case True
      obtain r1 s1 where c: "unlinkSync e g s = (r1, s1)" by (cases "unlinkSync e g s")
      show ?thesis
      proof (cases r1)
        case (Inl err)
        with c True \<open>g \<noteq> f\<close> show ?thesis by (simp add: standalone_def)
      next
        case (Inr u)
        from unlinkSync_ok[OF c[unfolded Inr]] have "files s1 = (files s)(g := None)" by auto
        with Cons.prems have "\<not> existsSync s1 f" by (simp add: existsSync_def)
        from Cons.IH[OF this] c Inr True \<open>g \<noteq> f\<close> show ?thesis by (simp add: standalone_def)
      qed
    qed
  qed
qed

lemma removeEach_ok:
  "removeEach e xs acc s = (Inr acc', s') \<Longrightarrow>
     set acc' \<subseteq> set acc \<union> {g \<in> set xs. standalone s g} \<and>
     files s' = (\<lambda>g. if g \<in> set xs \<and> \<not> str_includes g ''package.json'' then None
                      else files s g) \<and>
     backup s' = backup s"
proof (induction xs arbitrary: acc s)
  case Nil
  then show ?case by simp
next
  case (Cons f rest)
  show ?case
  proof (cases "standalone s f")
    case False
    then have "removeEach e (f # rest) acc s = removeEach e rest acc s"
      by (auto simp: standalone_def)
    with Cons.prems have "removeEach e rest acc s = (Inr acc', s')" by simp
    from Cons.IH[OF this] False show ?thesis
      by (auto simp: standalone_def existsSync_def fun_eq_iff)
  next
    case True
    then have step: "removeEach e (f # rest) acc s =
        (case unlinkSync e f s of
           (Inl err, s1) \<Rightarrow> (Inl err, s1)
         | (Inr u, s1) \<Rightarrow> removeEach e rest (acc @ [f]) s1)"
      by (simp add: standalone_def)
    obtain r1 s1 where c: "unlinkSync e f s = (r1, s1)" by (cases "unlinkSync e f s")
    with step Cons.prems obtain u where r1: "r1 = Inr u"
      and rest: "removeEach e rest (acc @ [f]) s1 = (Inr acc', s')"
      by (cases r1) auto
    from unlinkSync_ok[OF c[unfolded r1]]
    have s1: "files s1 = (files s)(f := None)" "backup s1 = backup s" by auto
    have "\<And>g. standalone s1 g \<Longrightarrow> standalone s g"
      using s1 by (auto simp: standalone_def existsSync_def split: if_splits)
    with Cons.IH[OF rest] True s1 show ?thesis
      by (auto simp: fun_eq_iff standalone_def)
  qed
qed

subsection \<open>Manifests that differ in the dependency fields only\<close>

lemma kept_refl: "kept p p"
  by (cases p) (simp_all add: kept_def)

lemma kept_JObjD:
  assumes "kept (JObj kvs) p'"
  shows "\<exists>kvs'. p' = JObj kvs' \<and>
             (\<forall>k. k \<noteq> ''dependencies'' \<and> k \<noteq> ''devDependencies'' \<longrightarrow>
                  map_of kvs' k = map_of kvs k)"
  using assms unfolding kept_def by (simp only: json.case)

lemma kept_other: "\<forall>kvs. p \<noteq> JObj kvs \<Longrightarrow> kept p p' \<Longrightarrow> p' = p"
  unfolding kept_def by (cases p) (simp_all only: json.case json.simps simp_thms)

lemma kept_own:
  assumes "kept p p'" "k \<noteq> ''dependencies''" "k \<noteq> ''devDependencies''"
  shows "own p' k = own p k"
proof (cases "\<exists>kvs. p = JObj kvs")
  case True
  then obtain kvs where p: "p = JObj kvs" ..
  from kept_JObjD[OF assms(1)[unfolded p]] obtain kvs' where 1: "p' = JObj kvs'"
    and 2: "\<forall>k. k \<noteq> ''dependencies'' \<and> k \<noteq> ''devDependencies'' \<longrightarrow>
                  map_of kvs' k = map_of kvs k"
    by (elim exE conjE)
  from 2[rule_format, of k] assms(2,3) have "map_of kvs' k = map_of kvs k"
    by (simp only: simp_thms)
  with p 1 show ?thesis by (simp only: own.simps)
next
  case False
  then have "p' = p" using assms(1) by (intro kept_other) simp_all
  then show ?thesis by simp
qed

lemma kept_is_object: assumes "kept p p'" shows "is_object p' = is_object p"
proof (cases "\<exists>kvs. p = JObj kvs")
  case True
  then obtain kvs where p: "p = JObj kvs" ..
  from kept_JObjD[OF assms[unfolded p]] obtain kvs' where "p' = JObj kvs'" by (elim exE conjE)
  with p show ?thesis by simp
next
  case False
  then have "p' = p" using assms by (intro kept_other) simp_all
  then show ?thesis by simp
qed

lemma kept_null: assumes "kept p p'" shows "p' = JNull \<longleftrightarrow> p = JNull"
proof (cases "\<exists>kvs. p = JObj kvs")
  case True
  then obtain kvs where p: "p = JObj kvs" ..
  from kept_JObjD[OF assms[unfolded p]] obtain kvs' where "p' = JObj kvs'" by (elim exE conjE)
  with p show ?thesis by simp
next
  case False
  then have "p' = p" using assms by (intro kept_other) simp_all
  then show ?thesis by simp
qed

subsection \<open>Rewriting a rewritten manifest\<close>

lemma new_scripts_idem: "new_scripts (new_scripts sc) = new_scripts sc"
proof -
  have "new_scripts sc' = sc'"
    if "map_of sc' ''lint'' = Some (JStr ''biome lint .'')"
      "map_of sc' ''format'' = Some (JStr ''biome format --write .'')"
      "map_of sc' ''format:check'' = Some (JStr ''biome format .'')"
      "map_of sc' ''check'' = Some (JStr ''biome check .'')"
      "map_of sc' ''check:fix'' = Some (JStr ''biome check --write .'')"
    for sc'
    unfolding new_scripts_def
    by (simp only: AList.update_triv[OF that(1)] AList.update_triv[OF that(2)]
        AList.update_triv[OF that(3)] AList.update_triv[OF that(4)] AList.update_triv[OF that(5)])
  from this[OF new_scripts_entries] show ?thesis .
qed

lemma fold_scriptUpdates_other:
  "\<forall>sc. x \<noteq> JObj sc \<Longrightarrow>
     fold (\<lambda>(key, value) sc. set_prop sc key (JStr value)) scriptUpdates x = x"
  by (cases x) (simp_all add: scriptUpdates_def)

lemma scripts_after_idem: "scripts_after (Some (scripts_after v)) = scripts_after v"
proof -
  define x where "x = (case v of None \<Rightarrow> JObj [] | Some x \<Rightarrow> if truthy x then x else JObj [])"
  have t: "truthy x" by (auto simp: x_def split: option.splits)
  have a: "scripts_after v = fold (\<lambda>(key, value) sc. set_prop sc key (JStr value)) scriptUpdates x"
    by (simp add: scripts_after_def x_def)
  have b: "scripts_after (Some y) =
      fold (\<lambda>(key, value) sc. set_prop sc key (JStr value)) scriptUpdates y" if "truthy y" for y
    using that by (simp add: scripts_after_def)
  show ?thesis
  proof (cases "\<exists>sc. x = JObj sc")
    case True
    then obtain sc where x: "x = JObj sc" ..
    then have "scripts_after v = JObj (new_scripts sc)" by (simp add: a fold_scriptUpdates)
    then show ?thesis by (simp add: b fold_scriptUpdates new_scripts_idem)
  next
    case False
    then have "scripts_after v = x" by (simp add: a fold_scriptUpdates_other)
    with False t show ?thesis by (simp add: b fold_scriptUpdates_other)
  qed
qed

lemma stripped_not_truthy:
  "\<not> truthy_opt (map_of (stripped kvs) ''eslintConfig'')"
  "\<not> truthy_opt (map_of (stripped kvs) ''prettier'')"
  by (auto simp: stripped_def Let_def AList.delete_conv')

lemma rewritePkg_shape:
  "rewritePkg p = Inr (q, rf) \<Longrightarrow>
     (\<exists>kvs. p = JObj kvs \<and>
        q = JObj (AList.update ''scripts'' (scripts_after (map_of kvs ''scripts'')) (stripped kvs))) \<or>
     (\<exists>xs. p = JArr xs \<and> q = p)"
proof (cases p)
  case (JObj kvs)
  assume a: "rewritePkg p = Inr (q, rf)"
  have sc: "map_of (stripped kvs) ''scripts'' = map_of kvs ''scripts''"
    by (rule stripped_others) simp_all
  from rewritePkg_JObj[of kvs] a JObj show ?thesis
    by (auto simp: scripts_after_def sc)
qed (auto simp: rewritePkg_def Let_def)

lemma rewritePkg_total: "is_object p \<Longrightarrow> \<exists>q rf. rewritePkg p = Inr (q, rf)"
proof (cases p)
  case (JObj kvs)
  with rewritePkg_JObj[of kvs] show ?thesis by auto
qed (auto simp: rewritePkg_def Let_def)

lemma rewritePkg_props:
  assumes "rewritePkg p = Inr (q, rf)"
  shows "is_object q" "q \<noteq> JNull"
    "\<not> truthy_opt (own q ''eslintConfig'')" "\<not> truthy_opt (own q ''prettier'')"
    "own q ''scripts'' = (case p of JObj kvs \<Rightarrow> Some (scripts_after (own p ''scripts'')) | _ \<Rightarrow> None)"
  using rewritePkg_shape[OF assms] stripped_not_truthy
  by (auto simp: AList.update_conv')

lemma rewritePkg_again:
  assumes 1: "rewritePkg p = Inr (q, rf)" and k: "kept q q'" and 2: "rewritePkg q' = Inr (q2, rf2)"
  shows "own q2 ''scripts'' = own q ''scripts''"
proof (cases "\<exists>kvs. p = JObj kvs")
  case True
  then obtain kvs where p: "p = JObj kvs" ..
  with rewritePkg_shape[OF 1] obtain qs where q: "q = JObj qs" by auto
  from kept_JObjD[OF k[unfolded q]] obtain qs' where q': "q' = JObj qs'" by (elim exE conjE)
  have "own q' ''scripts'' = own q ''scripts''" by (rule kept_own[OF k]) simp_all
  with rewritePkg_props(5)[OF 1] p
  have "own q' ''scripts'' = Some (scripts_after (own p ''scripts''))" by simp
  with rewritePkg_props(5)[OF 2] q'
  have "own q2 ''scripts'' = Some (scripts_after (Some (scripts_after (own p ''scripts''))))"
    by simp
  with rewritePkg_props(5)[OF 1] p show ?thesis by (simp add: scripts_after_idem)
next
  case False
  with rewritePkg_shape[OF 1] obtain xs where p: "p = JArr xs" "q = p" by auto
  with k have "q' = JArr xs" using kept_other[of q q'] by simp
  with rewritePkg_shape[OF 2] have "q2 = JArr xs" by auto
  with p show ?thesis by simp
qed

subsection \<open>The steps of a run under a confined package manager\<close>

lemma kept_trans:
  assumes "kept a b" "kept b c"
  shows "kept a c"
proof (cases "\<exists>kvs. a = JObj kvs")
  case True
  then obtain kvs where a: "a = JObj kvs" ..
  from kept_JObjD[OF assms(1)[unfolded a]] obtain kvs1 where b: "b = JObj kvs1"
    and 1: "\<forall>k. k \<noteq> ''dependencies'' \<and> k \<noteq> ''devDependencies'' \<longrightarrow>
                  map_of kvs1 k = map_of kvs k"
    by (elim exE conjE)
  from kept_JObjD[OF assms(2)[unfolded b]] obtain kvs2 where c: "c = JObj kvs2"
    and 2: "\<forall>k. k \<noteq> ''dependencies'' \<and> k \<noteq> ''devDependencies'' \<longrightarrow>
                  map_of kvs2 k = map_of kvs1 k"
    by (elim exE conjE)
  have "\<forall>k. k \<noteq> ''dependencies'' \<and> k \<noteq> ''devDependencies'' \<longrightarrow>
                  map_of kvs2 k = map_of kvs k"
  proof (intro allI impI)
    fix k :: string
    assume k: "k \<noteq> ''dependencies'' \<and> k \<noteq> ''devDependencies''"
    from 2[rule_format, OF k] 1[rule_format, OF k] show "map_of kvs2 k = map_of kvs k"
      by (rule trans)
  qed
  then have "\<exists>kvs'. JObj kvs2 = JObj kvs' \<and>
      (\<forall>k. k \<noteq> ''dependencies'' \<and> k \<noteq> ''devDependencies'' \<longrightarrow> map_of kvs' k = map_of kvs k)"
    by (intro exI[of _ kvs2] conjI refl)
  then show ?thesis unfolding a c kept_def by (simp only: json.case)
next
  case False
  then have "b = a" using assms(1) by (intro kept_other) simp_all
  with assms(2) show ?thesis by simp
qed

lemma same_manifest_refl: "same_manifest c c"
  unfolding same_manifest_def
  by (auto simp: kept_refl split: option.splits content.splits)

lemma same_manifest_JsonD:
  "same_manifest (Some (Json p)) c' \<Longrightarrow> \<exists>p'. c' = Some (Json p') \<and> kept p p'"
  unfolding same_manifest_def by simp

lemma other_names:
  "''biome.json'' \<notin> set (eslint CONFIG_FILES @ prettier CONFIG_FILES)"
  "''package.json'' \<notin> set (eslint CONFIG_FILES @ prettier CONFIG_FILES)"
  "str_includes ''package.json'' ''package.json''"
  "\<not> str_includes ''biome.json'' ''package.json''"
  by (simp_all add: CONFIG_FILES_def)

lemma detected_names:
  assumes "findExistingConfigs e s = Inr cfgs"
  shows "\<forall>g \<in> set (eslint cfgs @ prettier cfgs).
           \<not> str_includes g ''package.json'' \<longrightarrow>
             g \<in> set (eslint CONFIG_FILES @ prettier CONFIG_FILES)"
    and "\<forall>f \<in> set (eslint CONFIG_FILES @ prettier CONFIG_FILES).
           existsSync s f \<longrightarrow> f \<in> set (eslint cfgs @ prettier cfgs)"
proof -
  from findExistingConfigs_ok[OF assms] obtain es ps where
    l: "eslint cfgs = filter (existsSync s) (eslint CONFIG_FILES) @ es"
       "prettier cfgs = filter (existsSync s) (prettier CONFIG_FILES) @ ps"
    and sen: "set es \<subseteq> {''package.json (eslintConfig field)''}"
       "set ps \<subseteq> {''package.json (prettier field)''}"
    by blast
  have "str_includes g ''package.json''" if "g \<in> set es \<or> g \<in> set ps" for g
    using that sen by auto
  then show "\<forall>g \<in> set (eslint cfgs @ prettier cfgs).
           \<not> str_includes g ''package.json'' \<longrightarrow>
             g \<in> set (eslint CONFIG_FILES @ prettier CONFIG_FILES)"
    unfolding l by auto
  show "\<forall>f \<in> set (eslint CONFIG_FILES @ prettier CONFIG_FILES).
           existsSync s f \<longrightarrow> f \<in> set (eslint cfgs @ prettier cfgs)"
    unfolding l by auto
qed

lemma nothing_detected:
  assumes none: "\<forall>f \<in> set (eslint CONFIG_FILES @ prettier CONFIG_FILES). files s f = None"
    and man: "files s ''package.json'' = Some (Json p)"
    and rd: "\<not> read_fails e ''package.json''"
    and p: "p \<noteq> JNull" "\<not> truthy_opt (own p ''eslintConfig'')" "\<not> truthy_opt (own p ''prettier'')"
  shows "findExistingConfigs e s = Inr \<lparr>eslint = [], prettier = []\<rparr>"
proof -
  have "filter (existsSync s) (eslint CONFIG_FILES) = []"
    "filter (existsSync s) (prettier CONFIG_FILES) = []"
    using none by (auto simp: filter_empty_conv existsSync_def)
  moreover have "readJson e ''package.json'' s = Inr p" using man rd by (simp add: readJson_def)
  moreover have "existsSync s ''package.json''" using man by (simp add: existsSync_def)
  ultimately show ?thesis using p
    by (simp add: findExistingConfigs_def get_prop_def Let_def)
qed

lemma execSync_confined:
  assumes "confined e" "execSync e command s = (r, s')"
  shows "\<forall>f \<in> set (eslint CONFIG_FILES @ prettier CONFIG_FILES) \<union> {''biome.json''}.
            files s' f = files s f"
    and "same_manifest (files s ''package.json'') (files s' ''package.json'')"
proof -
  from assms(2) have s': "files s' = files (snd (exec e command s))"
    by (auto simp: execSync_def split: prod.splits)
  from assms(1) have
    1: "\<forall>f \<in> set (eslint CONFIG_FILES @ prettier CONFIG_FILES) \<union> {''biome.json''}.
            files (snd (exec e command s)) f = files s f"
    and 2: "same_manifest (files s ''package.json'')
            (files (snd (exec e command s)) ''package.json'')"
    unfolding confined_def by blast+
  from 1 show "\<forall>f \<in> set (eslint CONFIG_FILES @ prettier CONFIG_FILES) \<union> {''biome.json''}.
            files s' f = files s f"
    unfolding s' .
  from 2 show "same_manifest (files s ''package.json'') (files s' ''package.json'')"
    unfolding s' .
qed

lemma removeOldPackages_confined:
  assumes "confined e" "removeOldPackages e pm s = (r, s')"
  shows "\<forall>f \<in> set (eslint CONFIG_FILES @ prettier CONFIG_FILES) \<union> {''biome.json''}.
            files s' f = files s f"
    and "same_manifest (files s ''package.json'') (files s' ''package.json'')"
proof -
  have "s' = s \<or> (\<exists>command r1. execSync e command s = (r1, s'))"
    using assms(2)
    by (auto simp: removeOldPackages_def Let_def split: sum.splits if_splits prod.splits)
  then show "\<forall>f \<in> set (eslint CONFIG_FILES @ prettier CONFIG_FILES) \<union> {''biome.json''}.
            files s' f = files s f"
    using execSync_confined(1)[OF assms(1)] by blast
  from \<open>s' = s \<or> (\<exists>command r1. execSync e command s = (r1, s'))\<close>
  show "same_manifest (files s ''package.json'') (files s' ''package.json'')"
    using execSync_confined(2)[OF assms(1)] same_manifest_refl by auto
qed

lemma afterInstall_completed:
  assumes conf: "confined e"
    and run: "afterInstall e cfgs pm s2 = (Completed, s')"
    and names: "\<forall>g \<in> set (eslint cfgs @ prettier cfgs).
           \<not> str_includes g ''package.json'' \<longrightarrow>
             g \<in> set (eslint CONFIG_FILES @ prettier CONFIG_FILES)"
  shows "\<not> write_fails e ''biome.json''" "\<not> write_fails e ''package.json''"
    "\<not> read_fails e ''package.json''"
    "\<exists>p q rf q'. files s2 ''package.json'' = Some (Json p) \<and> rewritePkg p = Inr (q, rf) \<and>
        files s' ''package.json'' = Some (Json q') \<and> kept q q'"
    "files s' ''biome.json'' = Some (Json generateBiomeConfig)"
    "\<forall>f \<in> set (eslint CONFIG_FILES @ prettier CONFIG_FILES).
        files s' f = (if f \<in> set (eslint cfgs @ prettier cfgs) then None else files s2 f)"
proof -
  obtain r3 s3 where w: "writeFileSync e ''biome.json'' (Json generateBiomeConfig) s2 = (r3, s3)"
    by (cases "writeFileSync e ''biome.json'' (Json generateBiomeConfig) s2")
  obtain r4 s4 where u: "updatePackageJson e s3 = (r4, s4)" by (cases "updatePackageJson e s3")
  obtain r5 s5 where p: "removeOldPackages e pm s4 = (r5, s5)"
    by (cases "removeOldPackages e pm s4")
  obtain r6 s6 where d: "removeStep e cfgs s5 = (r6, s6)" by (cases "removeStep e cfgs s5")
  from run w have r3: "r3 = Inr ()"
    by (cases r3) (auto simp: afterInstall_def)
  from run w r3 u obtain rf where r4: "r4 = Inr rf"
    by (cases r4) (auto simp: afterInstall_def)
  from run w r3 u r4 p d obtain removed where r6: "r6 = Inr removed" and s6: "s6 = s'"
    by (cases r6) (auto simp: afterInstall_def)
  \<comment> \<open>the write of \<^verbatim>\<open>biome.json\<close>\<close>
  from writeFileSync_cases[OF w] r3
  have wf: "\<not> write_fails e ''biome.json''"
    and s3: "files s3 = (files s2)(''biome.json'' \<mapsto> Json generateBiomeConfig)"
    by auto
  show "\<not> write_fails e ''biome.json''" by (rule wf)
  \<comment> \<open>the update of the manifest\<close>
  from u r4 obtain pk where rd: "readJson e ''package.json'' s3 = Inr pk"
    by (cases "readJson e ''package.json'' s3") (auto simp: updatePackageJson_def)
  from u r4 rd obtain q rf' where rw: "rewritePkg pk = Inr (q, rf')"
    by (cases "rewritePkg pk") (auto simp: updatePackageJson_def)
  from u r4 rd rw obtain u' where
    w2: "writeFileSync e ''package.json'' (Json q) s3 = (Inr u', s4)"
    by (auto simp: updatePackageJson_def split: prod.splits sum.splits)
  from writeFileSync_cases[OF w2]
  have wf2: "\<not> write_fails e ''package.json''"
    and s4: "files s4 = (files s3)(''package.json'' \<mapsto> Json q)"
    by auto
  show "\<not> write_fails e ''package.json''" by (rule wf2)
  from rd have m3: "files s3 ''package.json'' = Some (Json pk)"
    and nr: "\<not> read_fails e ''package.json''"
    by (auto simp: readJson_def split: option.splits if_splits content.splits)
  show "\<not> read_fails e ''package.json''" by (rule nr)
  from m3 s3 have m2: "files s2 ''package.json'' = Some (Json pk)" by simp
  \<comment> \<open>the removal of the packages\<close>
  note c5 = removeOldPackages_confined[OF conf p]
  from c5(2) s4 obtain q' where m5: "files s5 ''package.json'' = Some (Json q')" and k: "kept q q'"
    by (auto dest: same_manifest_JsonD)
  from c5(1) s4 s3 have b5: "files s5 ''biome.json'' = Some (Json generateBiomeConfig)"
    by simp
  have l5: "files s5 f = files s2 f" if "f \<in> set (eslint CONFIG_FILES @ prettier CONFIG_FILES)" for f
  proof -
    from that other_names(1,2) have "f \<noteq> ''biome.json''" "f \<noteq> ''package.json''" by blast+
    with c5(1) that s4 s3 show ?thesis by simp
  qed
  \<comment> \<open>the removal of the files\<close>
  have fin: "files s' = (\<lambda>g. if g \<in> set (eslint cfgs @ prettier cfgs) \<and>
                \<not> str_includes g ''package.json'' then None else files s5 g)"
  proof (cases "length (eslint cfgs) > 0 \<or> length (prettier cfgs) > 0")
    case True
    with d r6 s6 have "removeEach e (eslint cfgs @ prettier cfgs) [] s5 = (Inr removed, s')"
      by (simp add: removeStep_def removeConfigFiles_def)
    from removeEach_ok[OF this] show ?thesis by simp
  next
    case False
    with d s6 have "s' = s5" by (simp add: removeStep_def)
    moreover from False have "set (eslint cfgs @ prettier cfgs) = {}" by simp
    ultimately show ?thesis by simp
  qed
  have "files s' ''package.json'' = files s5 ''package.json''"
    by (simp add: fin other_names)
  with m2 rw m5 k
  show "\<exists>p q rf q'. files s2 ''package.json'' = Some (Json p) \<and> rewritePkg p = Inr (q, rf) \<and>
        files s' ''package.json'' = Some (Json q') \<and> kept q q'"
    by (intro exI[of _ pk] exI[of _ q] exI[of _ rf'] exI[of _ q']) simp
  have "\<not> (''biome.json'' \<in> set (eslint cfgs @ prettier cfgs) \<and>
          \<not> str_includes ''biome.json'' ''package.json'')"
    using names other_names(1) by blast
  then have "files s' ''biome.json'' = files s5 ''biome.json''"
    unfolding fin by (simp only: if_False)
  with b5 show "files s' ''biome.json'' = Some (Json generateBiomeConfig)" by simp
  show "\<forall>f \<in> set (eslint CONFIG_FILES @ prettier CONFIG_FILES).
        files s' f = (if f \<in> set (eslint cfgs @ prettier cfgs) then None else files s2 f)"
  proof
    fix f assume f: "f \<in> set (eslint CONFIG_FILES @ prettier CONFIG_FILES)"
    then have "\<not> str_includes f ''package.json''" by (rule config_files_standalone)
    with l5[OF f] show "files s' f =
        (if f \<in> set (eslint cfgs @ prettier cfgs) then None else files s2 f)"
      unfolding fin by simp
  qed
qed

lemma afterInstall_completes:
  assumes conf: "confined e"
    and ok: "\<not> write_fails e ''biome.json''" "\<not> write_fails e ''package.json''"
      "\<not> read_fails e ''package.json''"
    and man: "files s2 ''package.json'' = Some (Json p)" "is_object p"
  shows "\<exists>s'. afterInstall e \<lparr>eslint = [], prettier = []\<rparr> pm s2 = (Completed, s')"
proof -
  define s3 where "s3 = s2\<lparr>files := (files s2)(''biome.json'' \<mapsto> Json generateBiomeConfig),
      calls := calls s2 @ [WriteFile ''biome.json'']\<rparr>"
  have w: "writeFileSync e ''biome.json'' (Json generateBiomeConfig) s2 = (Inr (), s3)"
    using ok(1) by (simp add: writeFileSync_def s3_def)
  have "files s3 ''package.json'' = Some (Json p)" using man(1) by (simp add: s3_def)
  then have rd: "readJson e ''package.json'' s3 = Inr p" using ok(3) by (simp add: readJson_def)
  from rewritePkg_total[OF man(2)] obtain q rf where rw: "rewritePkg p = Inr (q, rf)" by blast
  define s4 where "s4 = s3\<lparr>files := (files s3)(''package.json'' \<mapsto> Json q),
      calls := calls s3 @ [WriteFile ''package.json'']\<rparr>"
  have u: "updatePackageJson e s3 = (Inr rf, s4)"
    using ok(2) by (simp add: updatePackageJson_def rd rw writeFileSync_def s4_def)
  have d: "removeStep e \<lparr>eslint = [], prettier = []\<rparr> s5 = (Inr [], s5)" for s5
    by (simp add: removeStep_def)
  show ?thesis
    unfolding afterInstall_def by (simp add: w u d)
qed

lemma main_completed:
  assumes "main e s = (Completed, s1)"
  shows "\<exists>cfgs r sb u s2.
      findExistingConfigs e s = Inr cfgs \<and> backupStep e cfgs s = (Inr r, sb) \<and>
      installBiome e (detectPackageManager sb) sb = (Inr u, s2) \<and>
      afterInstall e cfgs (detectPackageManager sb) s2 = (Completed, s1)"
proof -
  obtain cfgs where det: "findExistingConfigs e s = Inr cfgs"
    using assms by (cases "findExistingConfigs e s") (auto simp: main_def)
  obtain rb sb where bs: "backupStep e cfgs s = (rb, sb)" by (cases "backupStep e cfgs s")
  obtain r where rb: "rb = Inr r"
    using assms det bs by (cases rb) (auto simp: main_def)
  obtain ri s2 where ins: "installBiome e (detectPackageManager sb) sb = (ri, s2)"
    by (cases "installBiome e (detectPackageManager sb) sb")
  obtain u where ri: "ri = Inr u"
    using assms det bs rb ins by (cases ri) (auto simp: main_def Let_def)
  have "afterInstall e cfgs (detectPackageManager sb) s2 = (Completed, s1)"
    using assms det bs rb ins ri by (simp add: main_def Let_def)
  with det bs rb ins ri show ?thesis by blast
qed

subsection \<open>The sample run\<close>

lemmas run_defs =
  main_def afterInstall_def backupStep_def removeStep_def backupConfigs_def removeConfigFiles_def
  findExistingConfigs_def updatePackageJson_def rewritePkg_def removeOldPackages_def
  installBiome_def detectPackageManager_def inManifest_def guarded_def
  existsSync_def readJson_def writeFileSync_def mkdirSync_def copyFileSync_def unlinkSync_def
  execSync_def get_prop_def CONFIG_FILES_def PACKAGES_TO_REMOVE_def scriptUpdates_def Let_def

lemma sample_run:
  "fst (main quiet sample) = Completed"
  "calls (snd (main quiet sample)) =
     [Mkdir, CopyFile ''.eslintrc.json'', CopyFile ''prettier.config.js'',
      Exec ''yarn add --dev --exact @biomejs/biome'', WriteFile ''biome.json'',
      WriteFile ''package.json'', Exec ''yarn remove eslint prettier'',
      Unlink ''.eslintrc.json'', Unlink ''prettier.config.js'']"
  by (simp_all add: run_defs quiet_def sample_def sample_manifest_def)

lemma sample_detect:
  "findExistingConfigs e sample =
     (if read_fails e ''package.json'' then Inl IOError
      else Inr \<lparr>eslint = [''.eslintrc.json''],
          prettier = [''prettier.config.js'', ''package.json (prettier field)'']\<rparr>)"
  by (simp add: findExistingConfigs_def existsSync_def sample_def CONFIG_FILES_def readJson_def
      get_prop_def sample_manifest_def)

lemma sample_backup:
  assumes "\<not> mkdir_fails e" "copy_fails e = (\<lambda>f. False)"
  shows "fst (backupStep e \<lparr>eslint = [''.eslintrc.json''],
          prettier = [''prettier.config.js'', ''package.json (prettier field)'']\<rparr> sample) =
   Inr (Some \<lparr>backupDir = ''.biome-migration-backup'',
               backedUp = [''.eslintrc.json'', ''prettier.config.js'']\<rparr>)"
  using assms by (simp add: run_defs sample_def)

lemma bare_update: "fst (updatePackageJson quiet bare) = Inr []"
  by (simp add: updatePackageJson_def readJson_def rewritePkg_def writeFileSync_def
      scriptUpdates_def bare_def quiet_def Let_def)

lemma quiet_confined: "confined quiet"
  unfolding confined_def by (simp add: quiet_def same_manifest_refl)

lemma sample_scripts:
  "manifestScripts (snd (main quiet sample)) =
     Some (JObj [(''lint'', JStr ''biome lint .''), (''test'', JStr ''jest''),
                 (''format'', JStr ''biome format --write .''),
                 (''format:check'', JStr ''biome format .''),
                 (''check'', JStr ''biome check .''),
                 (''check:fix'', JStr ''biome check --write .'')])"
  by (simp add: manifestScripts_def run_defs quiet_def sample_def sample_manifest_def)

subsection \<open>C1: a file is deleted only after it was copied into the backup\<close>

text \<open>
  Claim C1. Whatever the environment does and however the run ends, a file that the
  removal step deleted (an \<^verbatim>\<open>unlinkSync\<close> of this run) was detected, is in the list
  \<^verbatim>\<open>backedUp\<close> that the backup step returned, and was copied: when the backup step returned,
  the backup directory held it with the content it had in the project root. So a detected
  file that was not copied is never deleted. \<^verbatim>\<open>removeConfigFiles\<close> walks the detected
  list, not \<^verbatim>\<open>backedUp\<close>; the two agree on every run that reaches it, since every detected
  file exists when the backup runs and a copy that fails ends the run.
\<close>

theorem deleted_only_if_backed_up:
  assumes run: "main e s = (out, s')"
    and fresh: "calls s = []"
    and del: "Unlink f \<in> set (calls s')"
  shows "\<exists>cfgs r s1 b.
      findExistingConfigs e s = Inr cfgs \<and> f \<in> set (eslint cfgs @ prettier cfgs) \<and>
      backupStep e cfgs s = (Inr (Some r), s1) \<and> f \<in> set (backedUp r) \<and>
      CopyFile f \<in> set (calls s1) \<and>
      backup s1 = Some b \<and> b f = files s f \<and> files s f \<noteq> None"
proof -
  have u0: "unlinks s = {}" using fresh by (simp add: unlinks_def)
  from del have fu: "f \<in> unlinks s'" by (simp add: unlinks_def)
  obtain cfgs where det: "findExistingConfigs e s = Inr cfgs"
    using run u0 fu by (cases "findExistingConfigs e s") (auto simp: main_def)
  obtain rb s1 where bs: "backupStep e cfgs s = (rb, s1)" by (cases "backupStep e cfgs s")
  have u1: "unlinks s1 = {}" using backupStep_unlinks[OF bs] u0 by simp
  obtain ob where rb: "rb = Inr ob"
    using run det bs u1 fu by (cases rb) (auto simp: main_def)
  obtain ri s2 where ins: "installBiome e (detectPackageManager s1) s1 = (ri, s2)"
    by (cases "installBiome e (detectPackageManager s1) s1")
  have u2: "unlinks s2 = {}"
    using ins u1 execSync_unlinks[of e _ s1 ri s2] by (simp add: installBiome_def)
  have ai: "afterInstall e cfgs (detectPackageManager s1) s2 = (out, s')"
    using run det bs rb ins u2 fu by (cases ri) (auto simp: main_def Let_def)
  from afterInstall_unlinks[OF ai] u2 fu
  have mem: "f \<in> set (eslint cfgs @ prettier cfgs)" and nm: "\<not> str_includes f ''package.json''"
    by auto
  have sf: "standalone s f" by (rule detected_standalone[OF det mem nm])
  from mem have ne: "length (eslint cfgs) > 0 \<or> length (prettier cfgs) > 0" by auto
  with bs rb obtain r where ob: "ob = Some r" and bc: "backupConfigs e cfgs s = (Inr r, s1)"
    by (auto simp: backupStep_def split: prod.splits sum.splits)
  note k = backupConfigs_ok[OF bc]
  from k(3) mem sf have fb: "f \<in> set (backedUp r)" by simp
  from k(4) fb have cf: "CopyFile f \<in> set (calls s1)" by auto
  from sf have ex: "files s f \<noteq> None" by (simp add: standalone_def existsSync_def)
  from k(5) fb obtain b where "backup s1 = Some b" "b f = files s f" by simp
  with det mem bs rb ob fb cf ex show ?thesis by blast
qed

theorem deleted_only_if_backed_up_witness:
  "\<exists>cfgs r s1 b.
      findExistingConfigs quiet sample = Inr cfgs \<and>
      ''.eslintrc.json'' \<in> set (eslint cfgs @ prettier cfgs) \<and>
      backupStep quiet cfgs sample = (Inr (Some r), s1) \<and>
      ''.eslintrc.json'' \<in> set (backedUp r) \<and>
      CopyFile ''.eslintrc.json'' \<in> set (calls s1) \<and>
      backup s1 = Some b \<and> b ''.eslintrc.json'' = files sample ''.eslintrc.json'' \<and>
      files sample ''.eslintrc.json'' \<noteq> None"
proof -
  have run: "main quiet sample = (fst (main quiet sample), snd (main quiet sample))" by simp
  have fresh: "calls sample = []" by (simp add: sample_def)
  have del: "Unlink ''.eslintrc.json'' \<in> set (calls (snd (main quiet sample)))"
    by (simp add: sample_run)
  from deleted_only_if_backed_up[OF run fresh del] show ?thesis .
qed

subsection \<open>C2: a failed installation ends the run before anything is rewritten\<close>

text \<open>
  Claim C2. When detection and backup have gone through and the install command exits
  non-zero or cannot be spawned, the run ends in the \<^verbatim>\<open>catch\<close> around \<^verbatim>\<open>installBiome\<close> with a
  non-zero exit status. At that point the script has made no call but the \<^verbatim>\<open>mkdirSync\<close> and
  the copies of the backup and the install command itself: the command was started on a
  project whose files are those before the run and whose backup directory differs only in
  the copied files, and the state at exit is the one the failed command left. No manifest
  entry, no \<^verbatim>\<open>biome.json\<close> and no legacy file has been written or deleted by the script.
\<close>

theorem install_failure_leaves_project:
  assumes det: "findExistingConfigs e s = Inr cfgs"
    and bak: "backupStep e cfgs s = (Inr r, s1)"
    and fail: "\<not> fst (exec e (installCommand (detectPackageManager s1)) s1)"
  shows "\<exists>s'. main e s = (InstallFailed, s') \<and> exit_status InstallFailed \<noteq> 0 \<and>
      files s1 = files s \<and>
      calls s1 = calls s @ (if r \<noteq> None \<and> backup s = None then [Mkdir] else []) @
           map CopyFile (case r of None \<Rightarrow> [] | Some b \<Rightarrow> backedUp b) \<and>
      (\<forall>g. g \<notin> set (case r of None \<Rightarrow> [] | Some b \<Rightarrow> backedUp b) \<longrightarrow>
           (case backup s1 of None \<Rightarrow> None | Some d \<Rightarrow> d g) =
           (case backup s of None \<Rightarrow> None | Some d \<Rightarrow> d g)) \<and>
      s' = (snd (exec e (installCommand (detectPackageManager s1)) s1))
             \<lparr>calls := calls s1 @ [Exec (installCommand (detectPackageManager s1))]\<rparr>"
proof -
  let ?cmd = "installCommand (detectPackageManager s1)"
  obtain ok sx where x: "exec e ?cmd s1 = (ok, sx)" by (cases "exec e ?cmd s1")
  with fail have "\<not> ok" by simp
  with x have "installBiome e (detectPackageManager s1) s1 =
      (Inl ExecError, sx\<lparr>calls := calls s1 @ [Exec ?cmd]\<rparr>)"
    by (simp add: installBiome_def execSync_def)
  with det bak have "main e s = (InstallFailed, sx\<lparr>calls := calls s1 @ [Exec ?cmd]\<rparr>)"
    by (simp add: main_def Let_def)
  with x backupStep_ok[OF bak] show ?thesis by simp
qed

theorem install_failure_leaves_project_witness:
  "main offline sample = (InstallFailed, snd (main offline sample)) \<and>
   exit_status InstallFailed \<noteq> 0 \<and>
   files (snd (main offline sample)) = files sample \<and>
   calls (snd (main offline sample)) =
     [Mkdir, CopyFile ''.eslintrc.json'', CopyFile ''prettier.config.js'',
      Exec ''yarn add --dev --exact @biomejs/biome'']"
proof -
  let ?cfgs = "\<lparr>eslint = [''.eslintrc.json''],
          prettier = [''prettier.config.js'', ''package.json (prettier field)'']\<rparr>"
  let ?r = "Some \<lparr>backupDir = ''.biome-migration-backup'',
               backedUp = [''.eslintrc.json'', ''prettier.config.js'']\<rparr>"
  let ?s1 = "snd (backupStep offline ?cfgs sample)"
  have det: "findExistingConfigs offline sample = Inr ?cfgs"
    by (simp add: sample_detect offline_def quiet_def)
  have bak: "backupStep offline ?cfgs sample = (Inr ?r, ?s1)"
    using sample_backup[of offline] by (simp add: prod_eq_iff offline_def quiet_def)
  have fail: "\<not> fst (exec offline (installCommand (detectPackageManager ?s1)) ?s1)"
    by (simp add: offline_def)
  from install_failure_leaves_project[OF det bak fail]
  obtain s' where m: "main offline sample = (InstallFailed, s')"
    and f: "files ?s1 = files sample"
    and c: "calls ?s1 = calls sample @ (if ?r \<noteq> None \<and> backup sample = None then [Mkdir] else []) @
           map CopyFile (case ?r of None \<Rightarrow> [] | Some b \<Rightarrow> backedUp b)"
    and s': "s' = (snd (exec offline (installCommand (detectPackageManager ?s1)) ?s1))
             \<lparr>calls := calls ?s1 @ [Exec (installCommand (detectPackageManager ?s1))]\<rparr>"
    by blast
  have pm: "detectPackageManager ?s1 = Yarn"
    by (simp add: detectPackageManager_def existsSync_def f) (simp add: sample_def)
  have ex: "\<And>command x. exec offline command x = (False, x)" by (simp add: offline_def)
  from s' have "files s' = files sample" "calls s' = calls ?s1 @ [Exec (installCommand Yarn)]"
    by (simp_all add: ex f pm)
  with m c show ?thesis by (simp add: sample_def)
qed

subsection \<open>C3: a copy that fails ends the backup and the run\<close>

text \<open>
  Claim C3 says that a copy failure for one file does not stop the copying of the others.
  The script has no \<^verbatim>\<open>try\<close> around \<^verbatim>\<open>copyFileSync\<close>: in the sample project, when the copy of
  \<^verbatim>\<open>.eslintrc.json\<close> fails, \<^verbatim>\<open>backupConfigs\<close> throws, \<^verbatim>\<open>prettier.config.js\<close> (detected, present, and
  copyable) is never copied, and the run ends in the top-level handler.
\<close>

theorem copy_failure_stops_backup:
  "fst (backupConfigs copy_blocked
          \<lparr>eslint = [''.eslintrc.json''],
           prettier = [''prettier.config.js'', ''package.json (prettier field)'']\<rparr> sample) =
     Inl IOError \<and>
   standalone sample ''prettier.config.js'' \<and>
   \<not> copy_fails copy_blocked ''prettier.config.js'' \<and>
   CopyFile ''prettier.config.js'' \<notin> set (calls (snd (backupConfigs copy_blocked
          \<lparr>eslint = [''.eslintrc.json''],
           prettier = [''prettier.config.js'', ''package.json (prettier field)'']\<rparr> sample))) \<and>
   findExistingConfigs copy_blocked sample =
     Inr \<lparr>eslint = [''.eslintrc.json''],
          prettier = [''prettier.config.js'', ''package.json (prettier field)'']\<rparr> \<and>
   fst (main copy_blocked sample) = Crashed IOError"
  by (simp add: run_defs standalone_def copy_blocked_def quiet_def sample_def sample_manifest_def)

text \<open>
  Claim C3, amended. When the copy of a detected standalone file fails, and it is the first
  copy to fail (and the backup directory exists or can be made), the run ends with exit
  status 1 in the top-level handler. The standalone entries detected before that file have
  been copied; the file itself and the entries after it have not. The files of the project
  root are unchanged: in particular nothing has been deleted.
\<close>

theorem copy_failure_aborts_run:
  assumes det: "findExistingConfigs e s = Inr cfgs"
    and split: "eslint cfgs @ prettier cfgs = before @ f # after"
    and f: "\<not> str_includes f ''package.json''" "copy_fails e f"
    and first: "\<forall>g \<in> set before. \<not> copy_fails e g"
    and mk: "backup s = None \<longrightarrow> \<not> mkdir_fails e"
  shows "\<exists>s'. main e s = (Crashed IOError, s') \<and> exit_status (Crashed IOError) = 1 \<and>
      files s' = files s \<and>
      calls s' = calls s @ (if backup s = None then [Mkdir] else []) @
         map CopyFile (filter (\<lambda>g. \<not> str_includes g ''package.json'') before)"
proof -
  have mem: "f \<in> set (eslint cfgs @ prettier cfgs)" using split by simp
  have sf: "standalone s f" by (rule detected_standalone[OF det mem f(1)])
  have bef: "filter (standalone s) before = filter (\<lambda>g. \<not> str_includes g ''package.json'') before"
  proof (rule filter_cong[OF refl])
    fix g assume "g \<in> set before"
    then have "g \<in> set (eslint cfgs @ prettier cfgs)" using split by simp
    from detected_standalone[OF det this]
    show "standalone s g = (\<not> str_includes g ''package.json'')"
      by (auto simp: standalone_def)
  qed
  define s0 where "s0 = (if backup s = None
      then s\<lparr>backup := Some Map.empty, calls := calls s @ [Mkdir]\<rparr> else s)"
  have m0: "(if backup s = None then mkdirSync e s else (Inr (), s)) = (Inr (), s0)"
    using mk by (auto simp: s0_def mkdirSync_def)
  have s0: "files s0 = files s" "backup s0 \<noteq> None"
    "calls s0 = calls s @ (if backup s = None then [Mkdir] else [])"
    by (auto simp: s0_def)
  have st: "standalone s0 = standalone s" using s0(1) by (rule standalone_cong)
  from backupEach_fail[of s0 f e before after "[]"] s0(2) sf f(2) first st
  obtain s' where b: "backupEach e (before @ f # after) [] s0 = (Inl IOError, s')"
    and s': "files s' = files s0" "calls s' = calls s0 @ map CopyFile (filter (standalone s) before)"
    by auto
  from m0 b split have "backupConfigs e cfgs s = (Inl IOError, s')"
    by (simp add: backupConfigs_def)
  moreover have "length (eslint cfgs) > 0 \<or> length (prettier cfgs) > 0" using mem by auto
  ultimately have "backupStep e cfgs s = (Inl IOError, s')"
    by (simp add: backupStep_def)
  with det have "main e s = (Crashed IOError, s')" by (simp add: main_def)
  with s' s0 bef show ?thesis by simp
qed

theorem copy_failure_aborts_run_witness:
  "\<exists>s'. main (quiet\<lparr>copy_fails := (\<lambda>f. f = ''prettier.config.js'')\<rparr>) sample =
          (Crashed IOError, s') \<and>
      exit_status (Crashed IOError) = 1 \<and> files s' = files sample \<and>
      calls s' = [Mkdir, CopyFile ''.eslintrc.json'']"
proof -
  let ?e = "quiet\<lparr>copy_fails := (\<lambda>f. f = ''prettier.config.js'')\<rparr>"
  let ?cfgs = "\<lparr>eslint = [''.eslintrc.json''],
          prettier = [''prettier.config.js'', ''package.json (prettier field)'']\<rparr>"
  have det: "findExistingConfigs ?e sample = Inr ?cfgs"
    by (simp add: sample_detect quiet_def)
  have split: "eslint ?cfgs @ prettier ?cfgs =
      [''.eslintrc.json''] @ ''prettier.config.js'' # [''package.json (prettier field)'']"
    by simp
  have f: "\<not> str_includes ''prettier.config.js'' ''package.json''"
      "copy_fails ?e ''prettier.config.js''"
    by simp_all
  have first: "\<forall>g \<in> set [''.eslintrc.json'']. \<not> copy_fails ?e g" by simp
  have mk: "backup sample = None \<longrightarrow> \<not> mkdir_fails ?e"
    by (simp add: quiet_def)
  from copy_failure_aborts_run[OF det split f first mk]
  show ?thesis by (simp add: sample_def)
qed

subsection \<open>C4: detection throws on a manifest it cannot read\<close>

text \<open>
  Claim C4 says that detection never throws and reads a manifest it cannot parse as one with
  no embedded configuration. \<^verbatim>\<open>findExistingConfigs\<close> parses the manifest with no \<^verbatim>\<open>try\<close>
  around it: on the sample project with a manifest that is not JSON it throws a SyntaxError,
  which ends the run in the top-level handler.
\<close>

theorem detection_throws_on_malformed_manifest:
  "findExistingConfigs quiet broken = Inl SyntaxError \<and>
   fst (main quiet broken) = Crashed SyntaxError"
  by (simp add: main_def findExistingConfigs_def existsSync_def readJson_def broken_def
      quiet_def Let_def)

text \<open>
  Claim C4, amended. Detection returns a set of legacy configurations exactly when the
  manifest is absent, or can be read and parses to a value other than \<^verbatim>\<open>null\<close>. When the
  manifest exists but is unreadable, is not JSON or is \<^verbatim>\<open>null\<close>, detection throws; the run
  then ends in the top-level handler with exit status 1 and the project as it was.
\<close>

theorem detection_returns_iff:
  "((\<exists>cfgs. findExistingConfigs e s = Inr cfgs) \<longleftrightarrow>
      (files s ''package.json'' = None \<or>
       (\<exists>v. files s ''package.json'' = Some (Json v) \<and> v \<noteq> JNull \<and>
            \<not> read_fails e ''package.json''))) \<and>
   (\<forall>err. findExistingConfigs e s = Inl err \<longrightarrow>
      main e s = (Crashed err, s) \<and> exit_status (Crashed err) = 1)"
proof (intro conjI allI impI)
  show "(\<exists>cfgs. findExistingConfigs e s = Inr cfgs) \<longleftrightarrow>
      (files s ''package.json'' = None \<or>
       (\<exists>v. files s ''package.json'' = Some (Json v) \<and> v \<noteq> JNull \<and>
            \<not> read_fails e ''package.json''))"
    by (auto simp: findExistingConfigs_def existsSync_def readJson_def get_prop_def Let_def
        split: option.splits content.splits if_splits)
next
  fix err assume "findExistingConfigs e s = Inl err"
  then show "main e s = (Crashed err, s)" by (simp add: main_def)
next
  fix err show "exit_status (Crashed err) = 1" by simp
qed

theorem detection_returns_iff_witness:
  "(\<nexists>cfgs. findExistingConfigs quiet broken = Inr cfgs) \<and>
   main quiet broken = (Crashed SyntaxError, broken) \<and> exit_status (Crashed SyntaxError) = 1"
proof -
  have "findExistingConfigs quiet broken = Inl SyntaxError"
    by (simp add: findExistingConfigs_def existsSync_def readJson_def broken_def quiet_def Let_def)
  with detection_returns_iff[of quiet broken] show ?thesis by simp
qed

subsection \<open>C5: a manifest update that fails ends the run\<close>

text \<open>
  Claim C5 says that a failure of the manifest update is not fatal and that the run goes
  on to remove the dependencies and the files. \<^verbatim>\<open>main\<close> calls \<^verbatim>\<open>updatePackageJson\<close> with no
  \<^verbatim>\<open>try\<close> around it: in the sample project, when the manifest cannot be written, the run
  ends in the top-level handler right after \<^verbatim>\<open>biome.json\<close> was written, with no uninstall
  command and with the legacy files still in place.
\<close>

theorem manifest_write_failure_stops_run:
  "fst (main manifest_locked sample) = Crashed IOError \<and>
   calls (snd (main manifest_locked sample)) =
     [Mkdir, CopyFile ''.eslintrc.json'', CopyFile ''prettier.config.js'',
      Exec ''yarn add --dev --exact @biomejs/biome'', WriteFile ''biome.json''] \<and>
   files (snd (main manifest_locked sample)) ''.eslintrc.json'' \<noteq> None"
  by (simp add: run_defs manifest_locked_def quiet_def sample_def sample_manifest_def)

text \<open>
  Claim C5, amended. When the run has installed Biome and written \<^verbatim>\<open>biome.json\<close>, and the
  manifest update then fails (the manifest cannot be read, parsed, rewritten or written),
  the exception reaches the top-level handler: the run ends with exit status 1 in the state
  it had right after \<^verbatim>\<open>biome.json\<close> was written. The dependency removal and the file removal
  do not run.
\<close>

theorem manifest_update_failure_is_fatal:
  assumes det: "findExistingConfigs e s = Inr cfgs"
    and bak: "backupStep e cfgs s = (Inr r, s1)"
    and ins: "installBiome e (detectPackageManager s1) s1 = (Inr u, s2)"
    and wr: "writeFileSync e ''biome.json'' (Json generateBiomeConfig) s2 = (Inr u', s3)"
    and upd: "updatePackageJson e s3 = (Inl err, s4)"
  shows "main e s = (Crashed err, s3) \<and> exit_status (Crashed err) = 1 \<and> s4 = s3"
proof -
  from upd have "s4 = s3"
    by (auto simp: updatePackageJson_def split: sum.splits prod.splits dest!: writeFileSync_cases)
  with det bak ins wr upd show ?thesis
    by (simp add: main_def afterInstall_def Let_def)
qed

theorem manifest_update_failure_is_fatal_witness:
  "\<exists>s3. main manifest_locked sample = (Crashed IOError, s3) \<and>
      exit_status (Crashed IOError) = 1 \<and>
      calls s3 = [Mkdir, CopyFile ''.eslintrc.json'', CopyFile ''prettier.config.js'',
        Exec ''yarn add --dev --exact @biomejs/biome'', WriteFile ''biome.json''] \<and>
      files s3 ''.eslintrc.json'' = files sample ''.eslintrc.json''"
proof -
  let ?e = manifest_locked
  let ?cfgs = "\<lparr>eslint = [''.eslintrc.json''],
          prettier = [''prettier.config.js'', ''package.json (prettier field)'']\<rparr>"
  let ?r = "Some \<lparr>backupDir = ''.biome-migration-backup'',
               backedUp = [''.eslintrc.json'', ''prettier.config.js'']\<rparr>"
  define s1 where "s1 = snd (backupStep ?e ?cfgs sample)"
  define s2 where "s2 = s1\<lparr>calls := calls s1 @ [Exec ''yarn add --dev --exact @biomejs/biome'']\<rparr>"
  define s3 where "s3 = s2\<lparr>files := (files s2)(''biome.json'' \<mapsto> Json generateBiomeConfig),
                 calls := calls s2 @ [WriteFile ''biome.json'']\<rparr>"
  have e: "read_fails ?e = (\<lambda>f. False)" "\<not> mkdir_fails ?e" "copy_fails ?e = (\<lambda>f. False)"
    "write_fails ?e = (\<lambda>f. f = ''package.json'')" "exec ?e = (\<lambda>command s. (True, s))"
    by (simp_all add: manifest_locked_def quiet_def)
  have det: "findExistingConfigs ?e sample = Inr ?cfgs"
    by (simp add: sample_detect e)
  have bak: "backupStep ?e ?cfgs sample = (Inr ?r, s1)"
    using sample_backup[OF e(2,3)] by (simp add: prod_eq_iff s1_def)
  note k1 = backupStep_ok(1,2)[OF bak]
  have pm: "detectPackageManager s1 = Yarn"
    by (simp add: detectPackageManager_def existsSync_def k1) (simp add: sample_def)
  have ins: "installBiome ?e (detectPackageManager s1) s1 = (Inr (), s2)"
    by (simp add: pm installBiome_def execSync_def e s2_def)
  have wr: "writeFileSync ?e ''biome.json'' (Json generateBiomeConfig) s2 = (Inr (), s3)"
    by (simp add: writeFileSync_def e s3_def)
  have "files s3 ''package.json'' = Some (Json sample_manifest)"
    by (simp add: s3_def s2_def k1) (simp add: sample_def)
  then have rd: "readJson ?e ''package.json'' s3 = Inr sample_manifest"
    by (simp add: readJson_def e)
  have rw: "\<exists>p. rewritePkg sample_manifest = Inr p"
    by (simp add: rewritePkg_def sample_manifest_def Let_def)
  then obtain p where "rewritePkg sample_manifest = Inr p" ..
  then have upd: "updatePackageJson ?e s3 = (Inl IOError, s3)"
    by (cases p) (simp add: updatePackageJson_def rd writeFileSync_def e)
  from manifest_update_failure_is_fatal[OF det bak ins wr upd]
  have "main ?e sample = (Crashed IOError, s3)" "exit_status (Crashed IOError) = 1" by simp_all
  moreover have "calls s3 = [Mkdir, CopyFile ''.eslintrc.json'', CopyFile ''prettier.config.js'',
        Exec ''yarn add --dev --exact @biomejs/biome'', WriteFile ''biome.json'']"
    by (simp add: s3_def s2_def k1) (simp add: sample_def)
  moreover have "files s3 ''.eslintrc.json'' = files sample ''.eslintrc.json''"
    by (simp add: s3_def s2_def k1)
  ultimately show ?thesis by blast
qed

subsection \<open>C6: the uninstall command names the legacy packages that have a version\<close>




subsection \<open>C7: a second run completes and changes neither the configuration nor the scripts\<close>

text \<open>
  Claim C7. Let a first run complete, with a package manager that keeps to the dependency
  fields of the manifest, and let the install command succeed again when the migration is
  run a second time on the project the first run left, in the same environment. Then the
  second run completes too, with exit status 0. After either run \<^verbatim>\<open>biome.json\<close> holds the
  generated configuration, and the \<^verbatim>\<open>scripts\<close> field of the manifest, with its five
  entries, is the same after the second run as after the first.
\<close>

theorem second_run_changes_nothing:
  assumes run1: "main e s = (Completed, s1)"
    and conf: "confined e"
    and again: "fst (exec e (installCommand (detectPackageManager s1)) s1)"
  shows "\<exists>s2. main e s1 = (Completed, s2) \<and> exit_status Completed = 0 \<and>
      files s1 ''biome.json'' = Some (Json generateBiomeConfig) \<and>
      files s2 ''biome.json'' = Some (Json generateBiomeConfig) \<and>
      manifestScripts s2 = manifestScripts s1"
proof -
  \<comment> \<open>the first run\<close>
  from main_completed[OF run1] obtain cfgs r sb u sa where
    det: "findExistingConfigs e s = Inr cfgs" and bak: "backupStep e cfgs s = (Inr r, sb)"
    and ins: "installBiome e (detectPackageManager sb) sb = (Inr u, sa)"
    and aft: "afterInstall e cfgs (detectPackageManager sb) sa = (Completed, s1)"
    by blast
  note names = detected_names[OF det]
  note a = afterInstall_completed[OF conf aft names(1)]
  from a(4) obtain p q rf q' where
    rw: "rewritePkg p = Inr (q, rf)" and m1: "files s1 ''package.json'' = Some (Json q')"
    and k: "kept q q'"
    by blast
  note qp = rewritePkg_props[OF rw]
  have none1: "\<forall>f \<in> set (eslint CONFIG_FILES @ prettier CONFIG_FILES). files s1 f = None"
  proof
    fix f assume f: "f \<in> set (eslint CONFIG_FILES @ prettier CONFIG_FILES)"
    show "files s1 f = None"
    proof (cases "f \<in> set (eslint cfgs @ prettier cfgs)")
      case True
      with a(6) f show ?thesis by simp
    next
      case False
      with names(2) f have "files s f = None" by (auto simp: existsSync_def)
      moreover have "files sb f = files s f" using backupStep_ok(1)[OF bak] by simp
      moreover have "files sa f = files sb f"
        using execSync_confined(1)[OF conf ins[unfolded installBiome_def]] f by simp
      ultimately show ?thesis using a(6) f False by simp
    qed
  qed
  have q': "q' \<noteq> JNull" "is_object q'"
    "\<not> truthy_opt (own q' ''eslintConfig'')" "\<not> truthy_opt (own q' ''prettier'')"
    using qp kept_null[OF k] kept_is_object[OF k]
      kept_own[OF k, of "''eslintConfig''"] kept_own[OF k, of "''prettier''"]
    by simp_all
  \<comment> \<open>the second run\<close>
  have det2: "findExistingConfigs e s1 = Inr \<lparr>eslint = [], prettier = []\<rparr>"
    by (rule nothing_detected[OF none1 m1 a(3) q'(1,3,4)])
  have bak2: "backupStep e \<lparr>eslint = [], prettier = []\<rparr> s1 = (Inr None, s1)"
    by (simp add: backupStep_def)
  let ?pm = "detectPackageManager s1"
  obtain ok sx where x: "exec e (installCommand ?pm) s1 = (ok, sx)"
    by (cases "exec e (installCommand ?pm) s1")
  with again have ok by simp
  define sa2 where "sa2 = sx\<lparr>calls := calls s1 @ [Exec (installCommand ?pm)]\<rparr>"
  have ins2: "installBiome e ?pm s1 = (Inr (), sa2)"
    using x \<open>ok\<close> by (simp add: installBiome_def execSync_def sa2_def)
  from execSync_confined(2)[OF conf ins2[unfolded installBiome_def]] m1
  obtain p2 where m2: "files sa2 ''package.json'' = Some (Json p2)" and k2: "kept q' p2"
    by (auto dest: same_manifest_JsonD)
  have o2: "is_object p2" using kept_is_object[OF k2] q'(2) by simp
  from afterInstall_completes[OF conf a(1,2,3) m2 o2, of ?pm]
  obtain s2 where aft2: "afterInstall e \<lparr>eslint = [], prettier = []\<rparr> ?pm sa2 = (Completed, s2)"
    by blast
  have run2: "main e s1 = (Completed, s2)"
    using det2 bak2 ins2 aft2 by (simp add: main_def Let_def)
  have names2: "\<forall>g \<in> set (eslint \<lparr>eslint = [], prettier = []\<rparr> @
                           prettier \<lparr>eslint = [], prettier = []\<rparr>).
           \<not> str_includes g ''package.json'' \<longrightarrow>
             g \<in> set (eslint CONFIG_FILES @ prettier CONFIG_FILES)"
    by simp
  note b = afterInstall_completed[OF conf aft2 names2]
  from b(4) m2 obtain q2 rf2 q2' where
    rw2: "rewritePkg p2 = Inr (q2, rf2)" and m3: "files s2 ''package.json'' = Some (Json q2')"
    and k3: "kept q2 q2'"
    by auto
  have "own q2' ''scripts'' = own q2 ''scripts''" by (rule kept_own[OF k3]) simp_all
  also have "\<dots> = own q ''scripts''"
    by (rule rewritePkg_again[OF rw kept_trans[OF k k2] rw2])
  also have "\<dots> = own q' ''scripts''" by (rule kept_own[OF k, symmetric]) simp_all
  finally have "manifestScripts s2 = manifestScripts s1"
    by (simp add: manifestScripts_def m1 m3)
  with run2 a(5) b(5) show ?thesis by simp
qed

theorem second_run_changes_nothing_witness:
  "\<exists>s2. main quiet (snd (main quiet sample)) = (Completed, s2) \<and> exit_status Completed = 0 \<and>
      files (snd (main quiet sample)) ''biome.json'' = Some (Json generateBiomeConfig) \<and>
      files s2 ''biome.json'' = Some (Json generateBiomeConfig) \<and>
      manifestScripts s2 = manifestScripts (snd (main quiet sample)) \<and>
      manifestScripts (snd (main quiet sample)) =
        Some (JObj [(''lint'', JStr ''biome lint .''), (''test'', JStr ''jest''),
                    (''format'', JStr ''biome format --write .''),
                    (''format:check'', JStr ''biome format .''),
                    (''check'', JStr ''biome check .''),
                    (''check:fix'', JStr ''biome check --write .'')])"
proof -
  have run1: "main quiet sample = (Completed, snd (main quiet sample))"
    using sample_run(1) by (simp add: prod_eq_iff)
  have again: "fst (exec quiet (installCommand (detectPackageManager (snd (main quiet sample))))
      (snd (main quiet sample)))"
    by (simp add: quiet_def)
  from second_run_changes_nothing[OF run1 quiet_confined again] sample_scripts
  show ?thesis by (simp only: simp_thms)
qed

subsection \<open>C8: with only embedded fields detected, the backup makes an empty directory\<close>

text \<open>
  Claim C8. When every detected entry is one of the two \<^verbatim>\<open>package.json (... field)\<close> markers
  and there is at least one, step 2 of \<^verbatim>\<open>main\<close> still calls \<^verbatim>\<open>backupConfigs\<close>. When the backup
  directory does not exist yet and can be made, the step makes it, copies nothing into
  it, and returns an empty \<^verbatim>\<open>backedUp\<close> list: the only call is the \<^verbatim>\<open>mkdirSync\<close>.
\<close>

theorem sentinel_only_backup:
  assumes only: "\<forall>f \<in> set (eslint cfgs @ prettier cfgs). str_includes f ''package.json''"
    and some: "eslint cfgs @ prettier cfgs \<noteq> []"
    and absent: "backup s = None"
    and mk: "\<not> mkdir_fails e"
  shows "backupStep e cfgs s =
      (Inr (Some \<lparr>backupDir = ''.biome-migration-backup'', backedUp = []\<rparr>),
       s\<lparr>backup := Some Map.empty, calls := calls s @ [Mkdir]\<rparr>)"
proof -
  from some have "length (eslint cfgs) > 0 \<or> length (prettier cfgs) > 0" by auto
  moreover from absent mk have
    "(if backup s = None then mkdirSync e s else (Inr (), s)) =
       (Inr (), s\<lparr>backup := Some Map.empty, calls := calls s @ [Mkdir]\<rparr>)"
    by (simp add: mkdirSync_def)
  ultimately show ?thesis
    using backupEach_sentinels[OF only] by (simp add: backupStep_def backupConfigs_def)
qed

theorem sentinel_only_backup_witness:
  "findExistingConfigs quiet embedded_only =
     Inr \<lparr>eslint = [''package.json (eslintConfig field)''], prettier = []\<rparr> \<and>
   backupStep quiet \<lparr>eslint = [''package.json (eslintConfig field)''], prettier = []\<rparr>
       embedded_only =
     (Inr (Some \<lparr>backupDir = ''.biome-migration-backup'', backedUp = []\<rparr>),
      embedded_only\<lparr>backup := Some Map.empty, calls := calls embedded_only @ [Mkdir]\<rparr>)"
proof -
  let ?cfgs = "\<lparr>eslint = [''package.json (eslintConfig field)''], prettier = []\<rparr>"
  have det: "findExistingConfigs quiet embedded_only = Inr ?cfgs"
    by (simp add: findExistingConfigs_def existsSync_def readJson_def get_prop_def
        CONFIG_FILES_def embedded_only_def quiet_def)
  have only: "\<forall>f \<in> set (eslint ?cfgs @ prettier ?cfgs). str_includes f ''package.json''"
    by simp
  have some: "eslint ?cfgs @ prettier ?cfgs \<noteq> []" by simp
  have absent: "backup embedded_only = None" by (simp add: embedded_only_def)
  have mk: "\<not> mkdir_fails quiet" by (simp add: quiet_def)
  from det sentinel_only_backup[OF only some absent mk] show ?thesis by simp
qed

subsection \<open>C9: the manifest update keeps the other fields and sets the five scripts\<close>

text \<open>
  Claim C9 says that whenever the manifest update succeeds, the \<^verbatim>\<open>scripts\<close> object of the
  manifest holds the five entries. On a manifest whose \<^verbatim>\<open>scripts\<close> is a string the five
  assignments \<^verbatim>\<open>pkg.scripts[key] = value\<close> are dropped without an error: the step succeeds
  and writes the manifest back with \<^verbatim>\<open>scripts\<close> still that string and none of the entries.
\<close>

theorem scripts_string_takes_no_entry:
  "fst (updatePackageJson quiet stringly) = Inr [] \<and>
   files (snd (updatePackageJson quiet stringly)) ''package.json'' =
     Some (Json (JObj [(''name'', JStr ''demo''), (''scripts'', JStr ''none'')]))"
  by (simp add: updatePackageJson_def readJson_def rewritePkg_def writeFileSync_def
      scriptUpdates_def stringly_def quiet_def Let_def)

text \<open>
  Claim C9, amended. When \<^verbatim>\<open>updatePackageJson\<close> returns, every top-level field of the
  written manifest other than \<^verbatim>\<open>scripts\<close>, \<^verbatim>\<open>eslintConfig\<close> and \<^verbatim>\<open>prettier\<close> is as it was,
  and so is every other file. When moreover the manifest is an object whose \<^verbatim>\<open>scripts\<close>
  field is absent, falsy or an object, the written manifest has a \<^verbatim>\<open>scripts\<close> object that
  holds the five entries \<^verbatim>\<open>lint\<close>, \<^verbatim>\<open>format\<close>, \<^verbatim>\<open>format:check\<close>, \<^verbatim>\<open>check\<close> and \<^verbatim>\<open>check:fix\<close>
  with the fixed Biome commands; this covers the manifest with no \<^verbatim>\<open>scripts\<close> field.
\<close>

theorem manifest_update_sets_scripts:
  assumes man: "files s ''package.json'' = Some (Json pkg)"
    and upd: "updatePackageJson e s = (Inr removedFields, s')"
  shows "\<exists>pkg'.
      files s' ''package.json'' = Some (Json pkg') \<and>
      (\<forall>k. k \<noteq> ''scripts'' \<and> k \<noteq> ''eslintConfig'' \<and> k \<noteq> ''prettier'' \<longrightarrow>
           own pkg' k = own pkg k) \<and>
      (\<forall>g. g \<noteq> ''package.json'' \<longrightarrow> files s' g = files s g) \<and>
      ((\<exists>kvs. pkg = JObj kvs) \<and> scripts_slot_free pkg \<longrightarrow>
         (\<exists>sc. own pkg' ''scripts'' = Some (JObj sc) \<and>
            map_of sc ''lint'' = Some (JStr ''biome lint .'') \<and>
            map_of sc ''format'' = Some (JStr ''biome format --write .'') \<and>
            map_of sc ''format:check'' = Some (JStr ''biome format .'') \<and>
            map_of sc ''check'' = Some (JStr ''biome check .'') \<and>
            map_of sc ''check:fix'' = Some (JStr ''biome check --write .'')))"
proof -
  from upd man have rd: "readJson e ''package.json'' s = Inr pkg"
    by (auto simp: updatePackageJson_def readJson_def split: if_splits)
  from upd rd obtain q rf where rw: "rewritePkg pkg = Inr (q, rf)"
    by (cases "rewritePkg pkg") (auto simp: updatePackageJson_def)
  from upd rd rw obtain u where w: "writeFileSync e ''package.json'' (Json q) s = (Inr u, s')"
    by (auto simp: updatePackageJson_def split: prod.splits sum.splits)
  from writeFileSync_cases[OF w]
  have s': "s' = s\<lparr>files := (files s)(''package.json'' \<mapsto> Json q),
                   calls := calls s @ [WriteFile ''package.json'']\<rparr>"
    by simp
  have written: "files s' ''package.json'' = Some (Json q)" using s' by simp
  have others: "\<forall>g. g \<noteq> ''package.json'' \<longrightarrow> files s' g = files s g" using s' by simp
  have frame: "\<forall>k. k \<noteq> ''scripts'' \<and> k \<noteq> ''eslintConfig'' \<and> k \<noteq> ''prettier'' \<longrightarrow>
           own q k = own pkg k"
  proof (cases "\<exists>kvs. pkg = JObj kvs")
    case True
    then obtain kvs where p: "pkg = JObj kvs" ..
    with rewritePkg_shape[OF rw] have
      "q = JObj (AList.update ''scripts'' (scripts_after (map_of kvs ''scripts'')) (stripped kvs))"
      by simp
    with p show ?thesis by (simp add: AList.update_conv' stripped_others)
  next
    case False
    with rewritePkg_shape[OF rw] have "q = pkg" by auto
    then show ?thesis by simp
  qed
  have entries: "\<exists>sc. own q ''scripts'' = Some (JObj sc) \<and>
            map_of sc ''lint'' = Some (JStr ''biome lint .'') \<and>
            map_of sc ''format'' = Some (JStr ''biome format --write .'') \<and>
            map_of sc ''format:check'' = Some (JStr ''biome format .'') \<and>
            map_of sc ''check'' = Some (JStr ''biome check .'') \<and>
            map_of sc ''check:fix'' = Some (JStr ''biome check --write .'')"
    if obj: "\<exists>kvs. pkg = JObj kvs" and slot: "scripts_slot_free pkg"
  proof -
    from obj obtain kvs where p: "pkg = JObj kvs" ..
    let ?sc = "new_scripts (case map_of kvs ''scripts'' of Some (JObj sc) \<Rightarrow> sc | _ \<Rightarrow> [])"
    from rewritePkg_obj[OF slot[unfolded p]] rw p
    have "q = JObj (AList.update ''scripts'' (JObj ?sc) (stripped kvs))" by auto
    then have "own q ''scripts'' = Some (JObj ?sc)" by (simp add: AList.update_conv')
    then show ?thesis
      by (intro exI[of _ ?sc] conjI new_scripts_entries)
  qed
  show ?thesis
  proof (intro exI[of _ q] conjI impI)
    show "files s' ''package.json'' = Some (Json q)" by (rule written)
    show "\<forall>k. k \<noteq> ''scripts'' \<and> k \<noteq> ''eslintConfig'' \<and> k \<noteq> ''prettier'' \<longrightarrow>
           own q k = own pkg k"
      by (rule frame)
    show "\<forall>g. g \<noteq> ''package.json'' \<longrightarrow> files s' g = files s g" by (rule others)
  next
    assume "(\<exists>kvs. pkg = JObj kvs) \<and> scripts_slot_free pkg"
    then show "\<exists>sc. own q ''scripts'' = Some (JObj sc) \<and>
            map_of sc ''lint'' = Some (JStr ''biome lint .'') \<and>
            map_of sc ''format'' = Some (JStr ''biome format --write .'') \<and>
            map_of sc ''format:check'' = Some (JStr ''biome format .'') \<and>
            map_of sc ''check'' = Some (JStr ''biome check .'') \<and>
            map_of sc ''check:fix'' = Some (JStr ''biome check --write .'')"
      using entries by (elim conjE)
  qed
qed

theorem manifest_update_sets_scripts_witness:
  "\<exists>pkg' sc.
      files (snd (updatePackageJson quiet bare)) ''package.json'' = Some (Json pkg') \<and>
      own pkg' ''scripts'' = Some (JObj sc) \<and>
      map_of sc ''lint'' = Some (JStr ''biome lint .'') \<and>
      map_of sc ''format'' = Some (JStr ''biome format --write .'') \<and>
      map_of sc ''format:check'' = Some (JStr ''biome format .'') \<and>
      map_of sc ''check'' = Some (JStr ''biome check .'') \<and>
      map_of sc ''check:fix'' = Some (JStr ''biome check --write .'') \<and>
      own pkg' ''name'' = Some (JStr ''demo'') \<and>
      own pkg' ''version'' = Some (JStr ''1.0.0'')"
proof -
  let ?pkg = "JObj [(''name'', JStr ''demo''), (''version'', JStr ''1.0.0'')]"
  have man: "files bare ''package.json'' = Some (Json ?pkg)" by (simp add: bare_def)
  have slot: "(\<exists>kvs. ?pkg = JObj kvs) \<and> scripts_slot_free ?pkg"
    by (simp add: scripts_slot_free_def)
  have upd: "updatePackageJson quiet bare = (Inr [], snd (updatePackageJson quiet bare))"
    using bare_update by (simp add: prod_eq_iff)
  from manifest_update_sets_scripts[OF man upd] show ?thesis
  proof (elim exE conjE)
    fix pkg'
    assume w: "files (snd (updatePackageJson quiet bare)) ''package.json'' = Some (Json pkg')"
      and o: "\<forall>k. k \<noteq> ''scripts'' \<and> k \<noteq> ''eslintConfig'' \<and> k \<noteq> ''prettier'' \<longrightarrow>
           own pkg' k = own ?pkg k"
      and i: "(\<exists>kvs. ?pkg = JObj kvs) \<and> scripts_slot_free ?pkg \<longrightarrow>
         (\<exists>sc. own pkg' ''scripts'' = Some (JObj sc) \<and>
            map_of sc ''lint'' = Some (JStr ''biome lint .'') \<and>
            map_of sc ''format'' = Some (JStr ''biome format --write .'') \<and>
            map_of sc ''format:check'' = Some (JStr ''biome format .'') \<and>
            map_of sc ''check'' = Some (JStr ''biome check .'') \<and>
            map_of sc ''check:fix'' = Some (JStr ''biome check --write .''))"
    from o have n: "own pkg' ''name'' = Some (JStr ''demo'')"
      "own pkg' ''version'' = Some (JStr ''1.0.0'')"
      by simp_all
    from i[rule_format, OF slot] show ?thesis
    proof (elim exE conjE)
      fix sc
      assume k: "own pkg' ''scripts'' = Some (JObj sc)"
        "map_of sc ''lint'' = Some (JStr ''biome lint .'')"
        "map_of sc ''format'' = Some (JStr ''biome format --write .'')"
        "map_of sc ''format:check'' = Some (JStr ''biome format .'')"
        "map_of sc ''check'' = Some (JStr ''biome check .'')"
        "map_of sc ''check:fix'' = Some (JStr ''biome check --write .'')"
      show ?thesis
        by (rule exI[of _ pkg'], rule exI[of _ sc]) (intro conjI w k n)
    qed
  qed
qed

subsection \<open>C10: an entry whose file is gone is skipped\<close>

text \<open>
  Claim C10. Both \<^verbatim>\<open>backupConfigs\<close> and \<^verbatim>\<open>removeConfigFiles\<close> test \<^verbatim>\<open>existsSync\<close> before they
  copy or delete. For a file that does not exist when the step runs, each step does
  exactly what it does on the lists without that entry (the same result, the same state,
  so no error comes from it), and the file is in neither returned list.
\<close>

theorem missing_file_is_skipped:
  assumes gone: "\<not> existsSync s f"
  shows "backupConfigs e cfgs s =
           backupConfigs e \<lparr>eslint = removeAll f (eslint cfgs),
                            prettier = removeAll f (prettier cfgs)\<rparr> s \<and>
         removeConfigFiles e cfgs s =
           removeConfigFiles e \<lparr>eslint = removeAll f (eslint cfgs),
                                prettier = removeAll f (prettier cfgs)\<rparr> s \<and>
         (\<forall>r s'. backupConfigs e cfgs s = (Inr r, s') \<longrightarrow> f \<notin> set (backedUp r)) \<and>
         (\<forall>removed s'. removeConfigFiles e cfgs s = (Inr removed, s') \<longrightarrow> f \<notin> set removed)"
proof (intro conjI allI impI)
  have "removeEach e (eslint cfgs @ prettier cfgs) [] s =
      removeEach e (removeAll f (eslint cfgs) @ removeAll f (prettier cfgs)) [] s"
    using removeEach_absent[OF gone, of e "eslint cfgs @ prettier cfgs" "[]"] by simp
  then show "removeConfigFiles e cfgs s =
           removeConfigFiles e \<lparr>eslint = removeAll f (eslint cfgs),
                                prettier = removeAll f (prettier cfgs)\<rparr> s"
    by (simp add: removeConfigFiles_def)
  obtain r0 s0 where m: "(if backup s = None then mkdirSync e s else (Inr (), s)) = (r0, s0)"
    by (cases "if backup s = None then mkdirSync e s else (Inr (), s)")
  then have "files s0 = files s" by (auto split: if_splits dest!: mkdirSync_cases)
  with gone have "\<not> existsSync s0 f" by (simp add: existsSync_def)
  from backupEach_absent[OF this, of e "eslint cfgs @ prettier cfgs" "[]"]
  have "backupEach e (eslint cfgs @ prettier cfgs) [] s0 =
      backupEach e (removeAll f (eslint cfgs) @ removeAll f (prettier cfgs)) [] s0"
    by simp
  then show "backupConfigs e cfgs s =
           backupConfigs e \<lparr>eslint = removeAll f (eslint cfgs),
                            prettier = removeAll f (prettier cfgs)\<rparr> s"
    unfolding backupConfigs_def m by (cases r0) simp_all
next
  fix r s' assume "backupConfigs e cfgs s = (Inr r, s')"
  from backupConfigs_ok(3)[OF this] gone show "f \<notin> set (backedUp r)"
    by (simp add: standalone_def)
next
  fix removed s' assume "removeConfigFiles e cfgs s = (Inr removed, s')"
  then have "removeEach e (eslint cfgs @ prettier cfgs) [] s = (Inr removed, s')"
    by (simp add: removeConfigFiles_def)
  from removeEach_ok[OF this] gone show "f \<notin> set removed"
    by (auto simp: standalone_def)
qed

theorem missing_file_is_skipped_witness:
  "backupConfigs quiet
     \<lparr>eslint = [''.eslintrc.json''],
      prettier = [''prettier.config.js'', ''package.json (prettier field)'']\<rparr> vanished =
   backupConfigs quiet
     \<lparr>eslint = [],
      prettier = [''prettier.config.js'', ''package.json (prettier field)'']\<rparr> vanished \<and>
   removeConfigFiles quiet
     \<lparr>eslint = [''.eslintrc.json''],
      prettier = [''prettier.config.js'', ''package.json (prettier field)'']\<rparr> vanished =
   removeConfigFiles quiet
     \<lparr>eslint = [],
      prettier = [''prettier.config.js'', ''package.json (prettier field)'']\<rparr> vanished \<and>
   fst (backupConfigs quiet
     \<lparr>eslint = [''.eslintrc.json''],
      prettier = [''prettier.config.js'', ''package.json (prettier field)'']\<rparr> vanished) =
     Inr \<lparr>backupDir = ''.biome-migration-backup'', backedUp = [''prettier.config.js'']\<rparr> \<and>
   fst (removeConfigFiles quiet
     \<lparr>eslint = [''.eslintrc.json''],
      prettier = [''prettier.config.js'', ''package.json (prettier field)'']\<rparr> vanished) =
     Inr [''prettier.config.js'']"
proof -
  let ?cfgs = "\<lparr>eslint = [''.eslintrc.json''],
      prettier = [''prettier.config.js'', ''package.json (prettier field)'']\<rparr>"
  let ?less = "\<lparr>eslint = [],
      prettier = [''prettier.config.js'', ''package.json (prettier field)'']\<rparr>"
  have gone: "\<not> existsSync vanished ''.eslintrc.json''"
    by (simp add: existsSync_def vanished_def)
  have less: "\<lparr>eslint = removeAll ''.eslintrc.json'' (eslint ?cfgs),
               prettier = removeAll ''.eslintrc.json'' (prettier ?cfgs)\<rparr> = ?less"
    by simp
  from missing_file_is_skipped[OF gone, of quiet ?cfgs]
  have b: "backupConfigs quiet ?cfgs vanished = backupConfigs quiet ?less vanished"
    and r: "removeConfigFiles quiet ?cfgs vanished = removeConfigFiles quiet ?less vanished"
    unfolding less by simp_all
  have "fst (backupConfigs quiet ?less vanished) =
      Inr \<lparr>backupDir = ''.biome-migration-backup'', backedUp = [''prettier.config.js'']\<rparr>"
    by (simp add: run_defs quiet_def vanished_def sample_def)
  moreover have "fst (removeConfigFiles quiet ?less vanished) = Inr [''prettier.config.js'']"
    by (simp add: run_defs quiet_def vanished_def sample_def)
  ultimately show ?thesis using b r by simp
qed

end
